theory Spec2Isabelle
  imports Complex_Main
begin

section \<open>Python values and exceptions\<close>

text \<open>
  A Python \<open>str\<close> is a sequence of Unicode code points, \<open>bytes\<close> and \<open>bytearray\<close> are
  sequences of 8-bit values.  \<open>ustr\<close> turns an ASCII literal into a \<open>str\<close>.
\<close>

type_synonym pystr = "nat list"
type_synonym bytes = "char list"

definition ustr :: "string \<Rightarrow> pystr" where
  "ustr s = map of_char s"

text \<open>
  The exceptions that can travel through the kernel.  \<open>BoardError\<close> and
  \<open>SerialException\<close> carry the text that \<open>str(e)\<close> gives; \<open>SerialException\<close> stands
  for the class and its subclasses.
\<close>

datatype exn =
    BoardError pystr
  | SerialException pystr
  | KeyboardInterrupt
  | ValueError
  | SyntaxError
  | TypeError
  | AttributeError
  | UnicodeEncodeError
  | OverflowError
  | OtherError pystr

text \<open>
  A Python \<open>float\<close>: a finite number, an infinity or not-a-number.  The finite ones
  are reals here, the doubles being among them.
\<close>

datatype pyfloat = Finite real | PosInf | NegInf | NaN

text \<open>The values \<open>ast.literal_eval\<close> can produce.\<close>

datatype pyval =
    PNone
  | PBool bool
  | PInt int
  | PFloat real
  | PStr pystr
  | PBytes bytes
  | PTuple "pyval list"
  | PList "pyval list"
  | PSet "pyval list"
  | PDict "(pyval \<times> pyval) list"

subsection \<open>UTF-8\<close>

text \<open>\<open>str.encode('utf-8')\<close>: strict, so a lone surrogate raises.\<close>

definition cont_byte :: "nat \<Rightarrow> char" where
  "cont_byte n = char_of (0x80 + n mod 0x40)"

definition encode_cp :: "nat \<Rightarrow> exn + bytes" where
  "encode_cp c =
     (if c < 0x80 then Inr [char_of c]
      else if c < 0x800 then Inr [char_of (0xC0 + c div 0x40), cont_byte c]
      else if 0xD800 \<le> c \<and> c < 0xE000 then Inl UnicodeEncodeError
      else if c < 0x10000 then
        Inr [char_of (0xE0 + c div 0x1000), cont_byte (c div 0x40), cont_byte c]
      else if c < 0x110000 then
        Inr [char_of (0xF0 + c div 0x40000), cont_byte (c div 0x1000),
             cont_byte (c div 0x40), cont_byte c]
      else Inl UnicodeEncodeError)"

fun encode_utf8 :: "pystr \<Rightarrow> exn + bytes" where
  "encode_utf8 [] = Inr []"
| "encode_utf8 (c # cs) =
     (case encode_cp c of
        Inl e \<Rightarrow> Inl e
      | Inr b \<Rightarrow> (case encode_utf8 cs of Inl e \<Rightarrow> Inl e | Inr bs \<Rightarrow> Inr (b @ bs)))"

text \<open>
  \<open>bytes.decode('utf-8', 'replace')\<close> never raises: each ill-formed part becomes one
  U+FFFD.  An invalid start byte is replaced alone, an invalid continuation replaces
  the bytes read before it, and a sequence cut off by the end of the data is replaced
  as a whole.
\<close>

definition is_cont :: "nat \<Rightarrow> bool" where
  "is_cont b = (0x80 \<le> b \<and> b < 0xC0)"

definition second_ok :: "nat \<Rightarrow> nat \<Rightarrow> bool" where
  "second_ok b b2 =
     (is_cont b2
      \<and> \<not> (b = 0xE0 \<and> b2 < 0xA0) \<and> \<not> (b = 0xED \<and> 0xA0 \<le> b2)
      \<and> \<not> (b = 0xF0 \<and> b2 < 0x90) \<and> \<not> (b = 0xF4 \<and> 0x90 \<le> b2))"

fun decode_vals :: "nat list \<Rightarrow> pystr" where
  "decode_vals [] = []"
| "decode_vals (b # bs) =
     (if b < 0x80 then b # decode_vals bs
      else if b < 0xC2 \<or> 0xF5 \<le> b then 0xFFFD # decode_vals bs
      else (case bs of
              [] \<Rightarrow> [0xFFFD]
            | b2 # r2 \<Rightarrow>
                if \<not> second_ok b b2 then 0xFFFD # decode_vals bs
                else if b < 0xE0 then
                  ((b - 0xC0) * 0x40 + (b2 - 0x80)) # decode_vals r2
                else (case r2 of
                        [] \<Rightarrow> [0xFFFD]
                      | b3 # r3 \<Rightarrow>
                          if \<not> is_cont b3 then 0xFFFD # decode_vals r2
                          else if b < 0xF0 then
                            ((b - 0xE0) * 0x1000 + (b2 - 0x80) * 0x40 + (b3 - 0x80))
                              # decode_vals r3
                          else (case r3 of
                                  [] \<Rightarrow> [0xFFFD]
                                | b4 # r4 \<Rightarrow>
                                    if \<not> is_cont b4 then 0xFFFD # decode_vals r3
                                    else ((b - 0xF0) * 0x40000 + (b2 - 0x80) * 0x1000
                                          + (b3 - 0x80) * 0x40 + (b4 - 0x80))
                                           # decode_vals r4))))"

definition decode_utf8 :: "bytes \<Rightarrow> pystr" where
  "decode_utf8 bs = decode_vals (map of_char bs)"

subsection \<open>String operations\<close>

definition startswith :: "'a list \<Rightarrow> 'a list \<Rightarrow> bool" where
  "startswith s p = (take (length p) s = p)"

definition endswith :: "'a list \<Rightarrow> 'a list \<Rightarrow> bool" where
  "endswith s p = (length p \<le> length s \<and> drop (length s - length p) s = p)"

text \<open>\<open>s.split(sep)\<close> and \<open>s.rsplit(sep)\<close> for a separator of length one, no limit.\<close>

fun py_split :: "'a \<Rightarrow> 'a list \<Rightarrow> 'a list list" where
  "py_split sep [] = [[]]"
| "py_split sep (c # cs) =
     (if c = sep then [] # py_split sep cs
      else (case py_split sep cs of [] \<Rightarrow> [[c]] | p # ps \<Rightarrow> (c # p) # ps))"

text \<open>\<open>s.split(sep, 1)\<close>: one part when the separator is absent, else two.\<close>

definition py_split1 :: "'a \<Rightarrow> 'a list \<Rightarrow> 'a list list" where
  "py_split1 sep s =
     (if sep \<in> set s
      then [takeWhile (\<lambda>c. c \<noteq> sep) s, tl (dropWhile (\<lambda>c. c \<noteq> sep) s)]
      else [s])"

text \<open>The line boundaries of \<open>str.splitlines\<close>; CR LF counts as one.\<close>

definition is_linebreak :: "nat \<Rightarrow> bool" where
  "is_linebreak c = (c \<in> {0x0A, 0x0B, 0x0C, 0x0D, 0x1C, 0x1D, 0x1E, 0x85, 0x2028, 0x2029})"

fun splitlines_from :: "pystr \<Rightarrow> pystr \<Rightarrow> pystr list" where
  "splitlines_from cur [] = (if cur = [] then [] else [cur])"
| "splitlines_from cur [c] = (if is_linebreak c then [cur] else [cur @ [c]])"
| "splitlines_from cur (c # d # cs) =
     (if c = 0x0D \<and> d = 0x0A then cur # splitlines_from [] cs
      else if is_linebreak c then cur # splitlines_from [] (d # cs)
      else splitlines_from (cur @ [c]) (d # cs))"

definition splitlines :: "pystr \<Rightarrow> pystr list" where
  "splitlines s = splitlines_from [] s"

text \<open>\<open>str.isspace\<close> per code point, and \<open>str.strip()\<close>.\<close>

definition is_space :: "nat \<Rightarrow> bool" where
  "is_space c =
     ((0x09 \<le> c \<and> c \<le> 0x0D) \<or> (0x1C \<le> c \<and> c \<le> 0x20) \<or> c = 0x85 \<or> c = 0xA0
      \<or> c = 0x1680 \<or> (0x2000 \<le> c \<and> c \<le> 0x200A) \<or> c = 0x2028 \<or> c = 0x2029
      \<or> c = 0x202F \<or> c = 0x205F \<or> c = 0x3000)"

definition strip :: "pystr \<Rightarrow> pystr" where
  "strip s = rev (dropWhile is_space (rev (dropWhile is_space s)))"

text \<open>The slice \<open>s[:n]\<close>; a negative \<open>n\<close> counts from the end.\<close>

definition slice_to :: "int \<Rightarrow> 'a list \<Rightarrow> 'a list" where
  "slice_to n s = (if 0 \<le> n then take (nat n) s else take (nat (int (length s) + n)) s)"

section \<open>The kernel and its collaborators\<close>

text \<open>
  The \<open>Board\<close> class, the clock and three library functions lie outside the kernel
  module; the kernel is verified against any behaviour of them.  \<open>'w\<close> is the state
  of the world behind the board object.  Each operation returns its result or the
  exception it raises, and the world after it.
  \<^item> \<open>time_sleep\<close> is \<open>time.sleep(t)\<close>, which raises for a delay it refuses;
  \<^item> \<open>float_of_str\<close> is \<open>float(s)\<close>, \<open>None\<close> when it raises;
  \<^item> \<open>literal_parse\<close> is \<open>ast.literal_eval\<close> on a text that is not empty;
  \<^item> \<open>unicode_alnum\<close> is \<open>str.isalnum\<close> on the code points beyond ASCII.
\<close>

record 'w env =
  board_connect :: "'w \<Rightarrow> (exn + unit) \<times> 'w"
  board_write :: "bytes \<Rightarrow> 'w \<Rightarrow> (exn + unit) \<times> 'w"
  board_read_until :: "bytes \<Rightarrow> 'w \<Rightarrow> (exn + bytes) \<times> 'w"
  board_read_all :: "'w \<Rightarrow> (exn + bytes) \<times> 'w"
  board_softreset :: "'w \<Rightarrow> (exn + unit) \<times> 'w"
  board_close :: "'w \<Rightarrow> (exn + unit) \<times> 'w"
  time_sleep :: "pyfloat \<Rightarrow> 'w \<Rightarrow> (exn + unit) \<times> 'w"
  float_of_str :: "pystr \<Rightarrow> pyfloat option"
  literal_parse :: "pystr \<Rightarrow> exn + pyval"
  unicode_alnum :: "nat \<Rightarrow> bool"

text \<open>
  The calls the kernel has completed on the board and the clock, in order, with what
  the reads returned.  A call that raises is not recorded: its exception ends the run.
\<close>

datatype call =
    Connect
  | Write bytes
  | Read_until bytes bytes
  | Read_all bytes
  | Softreset
  | Close
  | Sleep pyfloat

text \<open>
  The kernel object: the world behind \<open>self.board\<close>, \<open>self.upload_delay\<close>,
  \<open>self.execution_count\<close>, the stream messages sent to the notebook (name and text),
  and the completed calls.
\<close>

record 'w kernel =
  board :: 'w
  upload_delay :: pyfloat
  execution_count :: nat
  iopub :: "(string \<times> pystr) list"
  calls :: "call list"

definition init_kernel :: "'w \<Rightarrow> 'w kernel" where
  "init_kernel w =
     \<lparr>board = w, upload_delay = Finite 0.06, execution_count = 0, iopub = [], calls = []\<rparr>"

definition invoke ::
  "('w \<Rightarrow> (exn + 'a) \<times> 'w) \<Rightarrow> ('a \<Rightarrow> call) \<Rightarrow> 'w kernel \<Rightarrow> (exn + 'a) \<times> 'w kernel" where
  "invoke f ev k =
     (case f (board k) of
        (Inl e, w) \<Rightarrow> (Inl e, k\<lparr>board := w\<rparr>)
      | (Inr x, w) \<Rightarrow> (Inr x, k\<lparr>board := w, calls := calls k @ [ev x]\<rparr>))"

definition connect :: "'w env \<Rightarrow> 'w kernel \<Rightarrow> (exn + unit) \<times> 'w kernel" where
  "connect E = invoke (board_connect E) (\<lambda>_. Connect)"

definition write_bytes :: "'w env \<Rightarrow> bytes \<Rightarrow> 'w kernel \<Rightarrow> (exn + unit) \<times> 'w kernel" where
  "write_bytes E bs = invoke (board_write E bs) (\<lambda>_. Write bs)"

definition read_until :: "'w env \<Rightarrow> bytes \<Rightarrow> 'w kernel \<Rightarrow> (exn + bytes) \<times> 'w kernel" where
  "read_until E d = invoke (board_read_until E d) (Read_until d)"

definition read_all :: "'w env \<Rightarrow> 'w kernel \<Rightarrow> (exn + bytes) \<times> 'w kernel" where
  "read_all E = invoke (board_read_all E) Read_all"

definition softreset :: "'w env \<Rightarrow> 'w kernel \<Rightarrow> (exn + unit) \<times> 'w kernel" where
  "softreset E = invoke (board_softreset E) (\<lambda>_. Softreset)"

definition close :: "'w env \<Rightarrow> 'w kernel \<Rightarrow> (exn + unit) \<times> 'w kernel" where
  "close E = invoke (board_close E) (\<lambda>_. Close)"

definition sleep :: "'w env \<Rightarrow> pyfloat \<Rightarrow> 'w kernel \<Rightarrow> (exn + unit) \<times> 'w kernel" where
  "sleep E t = invoke (time_sleep E t) (\<lambda>_. Sleep t)"

subsection \<open>\<open>send_stdout\<close>, \<open>send_stderr\<close>\<close>

definition send_stdout :: "pystr \<Rightarrow> bool \<Rightarrow> 'w kernel \<Rightarrow> 'w kernel" where
  "send_stdout msg silent k =
     (if silent \<or> msg = [] then k else k\<lparr>iopub := iopub k @ [(''stdout'', msg)]\<rparr>)"

definition send_stderr :: "pystr \<Rightarrow> bool \<Rightarrow> 'w kernel \<Rightarrow> 'w kernel" where
  "send_stderr msg silent k =
     (if silent \<or> msg = [] then k else k\<lparr>iopub := iopub k @ [(''stderr'', msg)]\<rparr>)"

subsection \<open>\<open>is_magic\<close>\<close>

text \<open>
  The bare \<open>except\<close> of the \<open>%upload_delay\<close> branch swallows the \<open>IndexError\<close> of
  \<open>s[1]\<close> and the \<open>ValueError\<close> of \<open>float\<close>; an exception of \<open>softreset\<close> is not caught.
\<close>

definition is_magic :: "'w env \<Rightarrow> pystr \<Rightarrow> 'w kernel \<Rightarrow> (exn + bool) \<times> 'w kernel" where
  "is_magic E line k =
     (if startswith line (ustr ''%softreset'') then
        (case softreset E k of
           (Inl e, k1) \<Rightarrow> (Inl e, k1)
         | (Inr _, k1) \<Rightarrow> (Inr True, k1))
      else if startswith line (ustr ''%upload_delay'') then
        (let s = py_split 0x20 line in
         case (if 1 < length s then float_of_str E (s ! 1) else None) of
           Some d \<Rightarrow> (Inr True, k\<lparr>upload_delay := d\<rparr>)
         | None \<Rightarrow> (Inr True, k))
      else (Inr False, k))"

text \<open>
  The lines that \<open>is_magic\<close> handles, and the delay that it takes from a line:
  \<open>float(line.split(' ')[1])\<close> of an \<open>%upload_delay\<close> line, when the field is there
  and \<open>float\<close> accepts it.
\<close>

definition magic_line :: "pystr \<Rightarrow> bool" where
  "magic_line line =
     (startswith line (ustr ''%softreset'') \<or> startswith line (ustr ''%upload_delay''))"

definition line_delay :: "'w env \<Rightarrow> pystr \<Rightarrow> pyfloat option" where
  "line_delay E line =
     (if startswith line (ustr ''%softreset'') \<or> \<not> startswith line (ustr ''%upload_delay'')
      then None
      else if 1 < length (py_split 0x20 line) then float_of_str E (py_split 0x20 line ! 1)
      else None)"

subsection \<open>\<open>run_code\<close>\<close>

text \<open>The \<open>for\<close> loop over the lines of the block (lines 81 to 86).\<close>

fun send_lines :: "'w env \<Rightarrow> pystr list \<Rightarrow> 'w kernel \<Rightarrow> (exn + unit) \<times> 'w kernel" where
  "send_lines E [] k = (Inr (), k)"
| "send_lines E (line # rest) k =
     (case is_magic E line k of
        (Inl e, k1) \<Rightarrow> (Inl e, k1)
      | (Inr True, k1) \<Rightarrow> send_lines E rest k1
      | (Inr False, k1) \<Rightarrow>
          (case encode_utf8 line of
             Inl e \<Rightarrow> (Inl e, k1)
           | Inr bs \<Rightarrow>
               (case write_bytes E bs k1 of
                  (Inl e, k2) \<Rightarrow> (Inl e, k2)
                | (Inr _, k2) \<Rightarrow>
                    (case write_bytes E [CHR 0x0D, CHR 0x0A] k2 of
                       (Inl e, k3) \<Rightarrow> (Inl e, k3)
                     | (Inr _, k3) \<Rightarrow>
                         (case sleep E (upload_delay k3) k3 of
                            (Inl e, k4) \<Rightarrow> (Inl e, k4)
                          | (Inr _, k4) \<Rightarrow> send_lines E rest k4)))))"

text \<open>Connecting, sending the lines and kicking off the evaluation (lines 79 to 88).\<close>

definition run_code_send :: "'w env \<Rightarrow> pystr \<Rightarrow> 'w kernel \<Rightarrow> (exn + unit) \<times> 'w kernel" where
  "run_code_send E code k =
     (case connect E k of
        (Inl e, k1) \<Rightarrow> (Inl e, k1)
      | (Inr _, k1) \<Rightarrow>
          (case send_lines E (splitlines code) k1 of
             (Inl e, k2) \<Rightarrow> (Inl e, k2)
           | (Inr _, k2) \<Rightarrow> write_bytes E [CHR 0x0D, CHR 0x04] k2))"

text \<open>
  The inner loop (lines 97 to 99): read until the buffer ends with the terminator.
  It may never return, so the result is an option.
\<close>

partial_function (option) run_code_rest ::
  "'w env \<Rightarrow> bytes \<Rightarrow> 'w kernel \<Rightarrow> ((exn + bytes) \<times> 'w kernel) option" where
  "run_code_rest E result k =
     (if endswith result [CHR 0x04, CHR ''>''] then Some (Inr result, k)
      else (case read_all E k of
              (Inl e, k1) \<Rightarrow> Some (Inl e, k1)
            | (Inr chunk, k1) \<Rightarrow>
                (case sleep E (Finite 0.1) k1 of
                   (Inl e, k2) \<Rightarrow> Some (Inl e, k2)
                 | (Inr _, k2) \<Rightarrow> run_code_rest E (result @ chunk) k2)))"

declare run_code_rest.simps [code]

text \<open>
  The outer loop (lines 93 to 109) with \<open>retval\<close> as accumulator; it returns the
  final \<open>retval\<close>.  The unpacking of line 102 raises when the stripped buffer holds
  no 0x04.
\<close>

partial_function (option) run_code_loop ::
  "'w env \<Rightarrow> bool \<Rightarrow> bytes \<Rightarrow> 'w kernel \<Rightarrow> ((exn + bytes) \<times> 'w kernel) option" where
  "run_code_loop E silent retval k =
     (case read_all E k of
        (Inl e, k1) \<Rightarrow> Some (Inl e, k1)
      | (Inr result, k1) \<Rightarrow>
          if CHR 0x04 \<in> set result then
            (case run_code_rest E result k1 of
               None \<Rightarrow> None
             | Some (Inl e, k2) \<Rightarrow> Some (Inl e, k2)
             | Some (Inr full, k2) \<Rightarrow>
                 (let result' = take (length full - 2) full in
                  case py_split1 (CHR 0x04) result' of
                    [out, err] \<Rightarrow>
                      Some (Inr (retval @ result'),
                            send_stderr (decode_utf8 err) silent
                              (send_stdout (decode_utf8 out) silent k2))
                  | _ \<Rightarrow> Some (Inl ValueError, k2)))
          else
            (case sleep E (Finite 0.1) (send_stdout (decode_utf8 result) silent k1) of
               (Inl e, k2) \<Rightarrow> Some (Inl e, k2)
             | (Inr _, k2) \<Rightarrow> run_code_loop E silent (retval @ result) k2))"

declare run_code_loop.simps [code]

definition run_code ::
  "'w env \<Rightarrow> pystr \<Rightarrow> bool \<Rightarrow> 'w kernel \<Rightarrow> ((exn + pystr \<times> pystr) \<times> 'w kernel) option" where
  "run_code E code silent k =
     (case run_code_send E code k of
        (Inl e, k1) \<Rightarrow> Some (Inl e, k1)
      | (Inr _, k1) \<Rightarrow>
          (case read_until E ''OK'' k1 of
             (Inl e, k2) \<Rightarrow> Some (Inl e, k2)
           | (Inr _, k2) \<Rightarrow>
               (case run_code_loop E silent [] k2 of
                  None \<Rightarrow> None
                | Some (Inl e, k3) \<Rightarrow> Some (Inl e, k3)
                | Some (Inr retval, k3) \<Rightarrow>
                    (case py_split1 (CHR 0x04) retval of
                       [out, err] \<Rightarrow> Some (Inr (decode_utf8 out, decode_utf8 err), k3)
                     | _ \<Rightarrow> Some (Inl ValueError, k3)))))"

subsection \<open>\<open>do_execute\<close>\<close>

record execute_reply =
  status :: string
  reply_execution_count :: nat
  payload :: "pyval list"
  user_expressions :: "(pystr \<times> pyval) list"

definition ok_reply :: "'w kernel \<Rightarrow> execute_reply" where
  "ok_reply k =
     \<lparr>status = ''ok'', reply_execution_count = execution_count k, payload = [],
      user_expressions = []\<rparr>"

definition do_execute ::
  "'w env \<Rightarrow> pystr \<Rightarrow> bool \<Rightarrow> 'w kernel \<Rightarrow> ((exn + execute_reply) \<times> 'w kernel) option" where
  "do_execute E code silent k =
     (if strip code = [] then Some (Inr (ok_reply k), k)
      else (case run_code E code silent k of
              None \<Rightarrow> None
            | Some (Inl (BoardError m), k1) \<Rightarrow>
                (let k2 = send_stderr (ustr ''No connection to CiruitPython VM: '' @ m) False k1
                 in Some (Inr (ok_reply k2), k2))
            | Some (Inl (SerialException m), k1) \<Rightarrow>
                (let k2 = send_stderr (ustr ''No connection to CiruitPython VM: '' @ m) False k1
                 in Some (Inr (ok_reply k2), k2))
            | Some (Inl KeyboardInterrupt, k1) \<Rightarrow>
                (let k2 = send_stderr (ustr ''Keyboard Interrupt'') False k1
                 in Some (Inr (ok_reply k2), k2))
            | Some (Inl e, k1) \<Rightarrow> Some (Inl e, k1)
            | Some (Inr _, k1) \<Rightarrow> Some (Inr (ok_reply k1), k1)))"

subsection \<open>\<open>_eval\<close>\<close>

text \<open>\<open>ast.literal_eval\<close>: the empty text is a syntax error.\<close>

definition literal_eval :: "'w env \<Rightarrow> pystr \<Rightarrow> exn + pyval" where
  "literal_eval E s = (if s = [] then Inl SyntaxError else literal_parse E s)"

text \<open>
  \<open>_eval\<close> runs the code silently (the default of \<open>run_code\<close>).  The handler of
  \<open>BoardError\<close> and \<open>SerialException\<close> sets \<open>out = ""\<close> and a local \<open>err\<close>, and goes
  on to \<open>ast.literal_eval(out)\<close>.
\<close>

definition kernel_eval ::
  "'w env \<Rightarrow> pystr \<Rightarrow> 'w kernel \<Rightarrow> ((exn + pyval) \<times> 'w kernel) option" where
  "kernel_eval E expr k =
     (case run_code E (ustr ''print('' @ expr @ ustr '')'') True k of
        None \<Rightarrow> None
      | Some (Inl (BoardError m), k1) \<Rightarrow> Some (literal_eval E [], k1)
      | Some (Inl (SerialException m), k1) \<Rightarrow> Some (literal_eval E [], k1)
      | Some (Inl e, k1) \<Rightarrow> Some (Inl e, k1)
      | Some (Inr (out, err), k1) \<Rightarrow> Some (literal_eval E out, k1))"

subsection \<open>\<open>do_shutdown\<close>\<close>

definition do_shutdown :: "'w env \<Rightarrow> bool \<Rightarrow> 'w kernel \<Rightarrow> (exn + unit) \<times> 'w kernel" where
  "do_shutdown E restart k =
     (case write_bytes E [CHR 0x0D, CHR 0x02] k of
        (Inl e, k1) \<Rightarrow> (Inl e, k1)
      | (Inr _, k1) \<Rightarrow> close E k1)"

subsection \<open>\<open>do_complete\<close>\<close>

text \<open>Regular expressions, matched by derivatives.\<close>

datatype regex =
    Never
  | Empty
  | Word
  | Lit nat
  | Seq regex regex
  | Alt regex regex
  | Star regex

text \<open>\<open>\w\<close> on a \<open>str\<close> pattern: alphanumeric or the underscore.\<close>

definition is_word :: "'w env \<Rightarrow> nat \<Rightarrow> bool" where
  "is_word E c =
     (if c < 0x80 then
        (0x30 \<le> c \<and> c \<le> 0x39) \<or> (0x41 \<le> c \<and> c \<le> 0x5A) \<or> c = 0x5F
        \<or> (0x61 \<le> c \<and> c \<le> 0x7A)
      else unicode_alnum E c)"

fun nullable :: "regex \<Rightarrow> bool" where
  "nullable Never = False"
| "nullable Empty = True"
| "nullable Word = False"
| "nullable (Lit c) = False"
| "nullable (Seq r s) = (nullable r \<and> nullable s)"
| "nullable (Alt r s) = (nullable r \<or> nullable s)"
| "nullable (Star r) = True"

fun deriv :: "(nat \<Rightarrow> bool) \<Rightarrow> nat \<Rightarrow> regex \<Rightarrow> regex" where
  "deriv w c Never = Never"
| "deriv w c Empty = Never"
| "deriv w c Word = (if w c then Empty else Never)"
| "deriv w c (Lit d) = (if c = d then Empty else Never)"
| "deriv w c (Seq r s) =
     (if nullable r then Alt (Seq (deriv w c r) s) (deriv w c s) else Seq (deriv w c r) s)"
| "deriv w c (Alt r s) = Alt (deriv w c r) (deriv w c s)"
| "deriv w c (Star r) = Seq (deriv w c r) (Star r)"

definition fullmatch :: "(nat \<Rightarrow> bool) \<Rightarrow> regex \<Rightarrow> pystr \<Rightarrow> bool" where
  "fullmatch w r s = nullable (foldl (\<lambda>r c. deriv w c r) r s)"

text \<open>The pattern \<open>(\w+\.)*(\w+)?\<close>.\<close>

definition prefix_pattern :: regex where
  "prefix_pattern =
     Seq (Star (Seq (Seq Word (Star Word)) (Lit 0x2E))) (Alt (Seq Word (Star Word)) Empty)"

text \<open>
  \<open>re.search(r + '$', s).group()\<close>: \<open>$\<close> holds at the end of the text and before a
  newline that ends it; the leftmost start wins, and at one start the longer match.
\<close>

definition dollar_ends :: "pystr \<Rightarrow> nat list" where
  "dollar_ends s =
     (if s \<noteq> [] \<and> last s = 0x0A then [length s, length s - 1] else [length s])"

definition search_dollar :: "(nat \<Rightarrow> bool) \<Rightarrow> regex \<Rightarrow> pystr \<Rightarrow> pystr option" where
  "search_dollar w r s =
     map_option (\<lambda>(i, e). take (e - i) (drop i s))
       (List.find (\<lambda>(i, e). i \<le> e \<and> fullmatch w r (take (e - i) (drop i s)))
          (concat (map (\<lambda>i. map (\<lambda>e. (i, e)) (dollar_ends s)) [0..<Suc (length s)])))"

record complete_reply =
  matches :: "pystr list"
  cursor_start :: int
  cursor_end :: int
  metadata :: "(pystr \<times> pyval) list"
  complete_status :: string

text \<open>Iterating over the value and calling \<open>n.startswith(prefix)\<close> on each element.\<close>

definition py_iter :: "pyval \<Rightarrow> exn + pyval list" where
  "py_iter v =
     (case v of
        PStr s \<Rightarrow> Inr (map (\<lambda>c. PStr [c]) s)
      | PBytes bs \<Rightarrow> Inr (map (\<lambda>b. PInt (of_char b)) bs)
      | PTuple xs \<Rightarrow> Inr xs
      | PList xs \<Rightarrow> Inr xs
      | PSet xs \<Rightarrow> Inr xs
      | PDict kvs \<Rightarrow> Inr (map fst kvs)
      | _ \<Rightarrow> Inl TypeError)"

fun select_names :: "pystr \<Rightarrow> pyval list \<Rightarrow> exn + pystr list" where
  "select_names prefix [] = Inr []"
| "select_names prefix (PStr n # ns) =
     (case select_names prefix ns of
        Inl e \<Rightarrow> Inl e
      | Inr ms \<Rightarrow> Inr (if startswith n prefix then n # ms else ms))"
| "select_names prefix (PBytes b # ns) = Inl TypeError"
| "select_names prefix (v # ns) = Inl AttributeError"

text \<open>Lines 207 to 217, after \<open>prefix\<close> is fixed.\<close>

definition complete_names ::
  "'w env \<Rightarrow> pystr \<Rightarrow> pystr \<Rightarrow> int \<Rightarrow> 'w kernel
     \<Rightarrow> ((exn + complete_reply) \<times> 'w kernel) option" where
  "complete_names E expr prefix cursor_pos k =
     (case kernel_eval E expr k of
        None \<Rightarrow> None
      | Some (Inl e, k1) \<Rightarrow> Some (Inl e, k1)
      | Some (Inr names, k1) \<Rightarrow>
          (case py_iter names of
             Inl e \<Rightarrow> Some (Inl e, k1)
           | Inr ns \<Rightarrow>
               (case select_names prefix ns of
                  Inl e \<Rightarrow> Some (Inl e, k1)
                | Inr ms \<Rightarrow>
                    Some (Inr \<lparr>matches = ms,
                               cursor_start = cursor_pos - int (length prefix),
                               cursor_end = cursor_pos, metadata = [],
                               complete_status = ''ok''\<rparr>, k1))))"

definition do_complete ::
  "'w env \<Rightarrow> pystr \<Rightarrow> int \<Rightarrow> 'w kernel \<Rightarrow> ((exn + complete_reply) \<times> 'w kernel) option" where
  "do_complete E code cursor_pos k =
     (case search_dollar (is_word E) prefix_pattern (slice_to cursor_pos code) of
        None \<Rightarrow>
          Some (Inr \<lparr>matches = [], cursor_start = cursor_pos, cursor_end = cursor_pos,
                     metadata = [], complete_status = ''ok''\<rparr>, k)
      | Some prefix \<Rightarrow>
          if 0x2E \<in> set prefix then
            (case py_split 0x2E prefix of
               [obj, prefix'] \<Rightarrow>
                 complete_names E (ustr ''dir('' @ obj @ ustr '')'') prefix' cursor_pos k
             | _ \<Rightarrow> Some (Inl ValueError, k))
          else complete_names E (ustr ''dir()'') prefix cursor_pos k)"

section \<open>A scripted device\<close>

text \<open>
  Modelled from the spec: the \<open>Board\<close> class (\<open>board.py\<close>) and the serial transport
  behind it.  \<open>connect\<close> opens the transport once and fails when no board is attached;
  \<open>write\<close> forwards the bytes; \<open>read_all\<close> returns what is available, here the next
  burst of the script, and nothing once the script is used up; \<open>read_until\<close> reads up
  to and including the delimiter, or everything when it never comes; \<open>softreset\<close>
  waits for no answer and is only counted; \<open>close\<close> releases the transport (the
  interrupt byte that goes out on shutdown is written by \<open>do_shutdown\<close>).  Every
  operation but \<open>connect\<close> and \<open>close\<close> fails on a transport that is not open.
\<close>

record device =
  attached :: bool
  is_open :: bool
  opens :: nat
  resets :: nat
  received :: bytes
  pending :: "bytes list"

definition usable :: "device \<Rightarrow> bool" where
  "usable d = (attached d \<and> is_open d)"

definition no_board :: exn where
  "no_board = BoardError (ustr ''board not found'')"

definition dev_connect :: "device \<Rightarrow> (exn + unit) \<times> device" where
  "dev_connect d =
     (if is_open d then (Inr (), d)
      else if attached d then (Inr (), d\<lparr>is_open := True, opens := opens d + 1\<rparr>)
      else (Inl no_board, d))"

definition dev_write :: "bytes \<Rightarrow> device \<Rightarrow> (exn + unit) \<times> device" where
  "dev_write bs d =
     (if usable d then (Inr (), d\<lparr>received := received d @ bs\<rparr>) else (Inl no_board, d))"

fun until_end :: "bytes \<Rightarrow> bytes \<Rightarrow> nat" where
  "until_end delim [] = 0"
| "until_end delim (c # cs) =
     (if startswith (c # cs) delim then length delim else Suc (until_end delim cs))"

fun drop_bytes :: "nat \<Rightarrow> bytes list \<Rightarrow> bytes list" where
  "drop_bytes n [] = []"
| "drop_bytes n (c # cs) =
     (if n = 0 then c # cs
      else if n < length c then drop n c # cs
      else drop_bytes (n - length c) cs)"

definition dev_read_until :: "bytes \<Rightarrow> device \<Rightarrow> (exn + bytes) \<times> device" where
  "dev_read_until delim d =
     (if usable d then
        (let s = concat (pending d); n = until_end delim s
         in (Inr (take n s), d\<lparr>pending := drop_bytes n (pending d)\<rparr>))
      else (Inl no_board, d))"

definition dev_read_all :: "device \<Rightarrow> (exn + bytes) \<times> device" where
  "dev_read_all d =
     (if usable d then
        (case pending d of
           [] \<Rightarrow> (Inr [], d)
         | c # cs \<Rightarrow> (Inr c, d\<lparr>pending := cs\<rparr>))
      else (Inl no_board, d))"

definition dev_softreset :: "device \<Rightarrow> (exn + unit) \<times> device" where
  "dev_softreset d =
     (if usable d then (Inr (), d\<lparr>resets := resets d + 1\<rparr>) else (Inl no_board, d))"

definition dev_close :: "device \<Rightarrow> (exn + unit) \<times> device" where
  "dev_close d = (Inr (), d\<lparr>is_open := False\<rparr>)"

text \<open>
  Modelled from the spec: the environment of a kernel that talks to the scripted
  device.  The clock \<open>ck\<close> tells for each delay whether \<open>time.sleep\<close> returns
  (\<open>None\<close>) or which exception it raises; \<open>float\<close>, \<open>ast.literal_eval\<close> and the
  word characters beyond ASCII are given.
\<close>

definition dev_sleep :: "(pyfloat \<Rightarrow> exn option) \<Rightarrow> pyfloat \<Rightarrow> device \<Rightarrow> (exn + unit) \<times> device" where
  "dev_sleep ck t d = (case ck t of None \<Rightarrow> (Inr (), d) | Some e \<Rightarrow> (Inl e, d))"

definition device_env ::
  "(pyfloat \<Rightarrow> exn option) \<Rightarrow> (pystr \<Rightarrow> pyfloat option) \<Rightarrow> (pystr \<Rightarrow> exn + pyval)
     \<Rightarrow> (nat \<Rightarrow> bool) \<Rightarrow> device env" where
  "device_env ck fl lit al =
     \<lparr>board_connect = dev_connect, board_write = dev_write,
      board_read_until = dev_read_until, board_read_all = dev_read_all,
      board_softreset = dev_softreset, board_close = dev_close,
      time_sleep = dev_sleep ck,
      float_of_str = fl, literal_parse = lit, unicode_alnum = al\<rparr>"

text \<open>
  Modelled from the spec: \<open>time.sleep\<close> of CPython.  Not-a-number raises
  \<open>ValueError\<close>; a delay whose nanoseconds do not fit 64 bits, so either infinity,
  raises \<open>OverflowError\<close>; any other negative delay raises \<open>ValueError\<close>.
\<close>

definition py_clock :: "pyfloat \<Rightarrow> exn option" where
  "py_clock t =
     (case t of
        NaN \<Rightarrow> Some ValueError
      | PosInf \<Rightarrow> Some OverflowError
      | NegInf \<Rightarrow> Some OverflowError
      | Finite r \<Rightarrow>
          if 2 ^ 63 \<le> \<bar>r\<bar> * 10 ^ 9 then Some OverflowError
          else if r < 0 then Some ValueError
          else None)"

text \<open>A board that is attached and will deliver the bursts \<open>bursts\<close>; one that is not.\<close>

definition board_with :: "bytes list \<Rightarrow> device" where
  "board_with bursts =
     \<lparr>attached = True, is_open = False, opens = 0, resets = 0, received = [],
      pending = bursts\<rparr>"

definition absent_board :: device where
  "absent_board =
     \<lparr>attached = False, is_open = False, opens = 0, resets = 0, received = [],
      pending = []\<rparr>"

text \<open>A board whose transport is already open.\<close>

definition open_board :: "bytes list \<Rightarrow> device" where
  "open_board bursts = (board_with bursts)\<lparr>is_open := True, opens := 1\<rparr>"

text \<open>
  Stand-ins for \<open>float\<close> and \<open>ast.literal_eval\<close> that know one text each, and an
  environment for the scripted device built from them.
\<close>

definition names_text :: pystr where
  "names_text = ustr ''['' @ [0x27] @ ustr ''__class__'' @ [0x27] @ ustr '', '' @ [0x27]
                 @ ustr ''method'' @ [0x27] @ ustr '']'' @ [0x0D, 0x0A]"

definition one_float :: "pystr \<Rightarrow> pyfloat option" where
  "one_float s = (if s = ustr ''0.5'' then Some (Finite 0.5) else None)"

definition one_literal :: "pystr \<Rightarrow> exn + pyval" where
  "one_literal s =
     (if s = names_text then Inr (PList [PStr (ustr ''__class__''), PStr (ustr ''method'')])
      else Inl SyntaxError)"

definition plain_env :: "device env" where
  "plain_env = device_env py_clock one_float one_literal (\<lambda>_. False)"

section \<open>Reading the record of calls\<close>

text \<open>What was written, how long the kernel slept and what \<open>read_all\<close> returned.\<close>

fun written :: "call list \<Rightarrow> bytes list" where
  "written [] = []"
| "written (Write bs # evs) = bs # written evs"
| "written (ev # evs) = written evs"

fun sleeps :: "call list \<Rightarrow> pyfloat list" where
  "sleeps [] = []"
| "sleeps (Sleep t # evs) = t # sleeps evs"
| "sleeps (ev # evs) = sleeps evs"

fun read_alls :: "call list \<Rightarrow> bytes list" where
  "read_alls [] = []"
| "read_alls (Read_all bs # evs) = bs # read_alls evs"
| "read_alls (ev # evs) = read_alls evs"

fun is_read :: "call \<Rightarrow> bool" where
  "is_read (Read_until d bs) = True"
| "is_read (Read_all bs) = True"
| "is_read ev = False"

text \<open>The calls completed between two states of the kernel.\<close>

definition new_calls :: "'w kernel \<Rightarrow> 'w kernel \<Rightarrow> call list" where
  "new_calls k k1 = drop (length (calls k)) (calls k1)"

text \<open>
  Two outcomes are the same but for the notebook output when they hold the same
  result or exception and their kernels differ in \<open>iopub\<close> at most.
\<close>

definition hush :: "'w kernel \<Rightarrow> 'w kernel" where
  "hush k = k\<lparr>iopub := []\<rparr>"

definition same_but_iopub :: "'a \<times> 'w kernel \<Rightarrow> 'a \<times> 'w kernel \<Rightarrow> bool" where
  "same_but_iopub y y' = (fst y = fst y' \<and> hush (snd y) = hush (snd y'))"

text \<open>A block of two lines of code around a magic line.\<close>

definition two_lines :: pystr where
  "two_lines = ustr ''a'' @ [0x0A] @ ustr ''%softreset'' @ [0x0A] @ ustr ''b''"

text \<open>A block of one line that holds a form feed between two letters.\<close>

definition ff_line :: pystr where
  "ff_line = ustr ''a'' @ [0x0C] @ ustr ''b''"

text \<open>A block that sets the delay to 0.5 and then sends a line.\<close>

definition half_lines :: pystr where
  "half_lines = ustr ''%upload_delay 0.5'' @ [0x0A] @ ustr ''x''"

text \<open>
  A block that sets a negative delay and then sends a line, and a \<open>float\<close> that
  reads the text \<open>-1\<close>.
\<close>

definition delay_lines :: pystr where
  "delay_lines = ustr ''%upload_delay -1'' @ [0x0A] @ ustr ''x''"

definition minus_float :: "pystr \<Rightarrow> pyfloat option" where
  "minus_float s = (if s = ustr ''-1'' then Some (Finite (- 1)) else None)"

text \<open>The response \<open>OK hello 0x04 0x04 >\<close>, arriving in four bursts.\<close>

definition hello_bursts :: "bytes list" where
  "hello_bursts = [''OKhel'', ''lo'' @ [CHR 0x04], [CHR 0x04], ''>'']"

text \<open>The response \<open>OK 0x04 Traceback... 0x04 >\<close> in one burst.\<close>

definition traceback_bursts :: "bytes list" where
  "traceback_bursts = [''OK'' @ [CHR 0x04] @ ''Traceback...'' @ [CHR 0x04, CHR ''>'']]"

text \<open>
  The response \<open>OK hi 0x04 >oops 0x04 >\<close>, whose error text begins with \<open>>\<close>, in
  two bursts: the first ends after the first \<open>>\<close>.
\<close>

definition early_bursts :: "bytes list" where
  "early_bursts = [''OKhi'' @ [CHR 0x04, CHR ''>''], ''oops'' @ [CHR 0x04, CHR ''>'']]"

text \<open>
  The answer of a device to \<open>print(dir(obj))\<close> for an object whose names are
  \<open>__class__\<close> and \<open>method\<close>, in one burst.
\<close>

definition names_bursts :: "bytes list" where
  "names_bursts =
     [''OK['' @ [CHR 0x27] @ ''__class__'' @ [CHR 0x27] @ '', '' @ [CHR 0x27] @ ''method''
       @ [CHR 0x27] @ '']'' @ [CHR 0x0D, CHR 0x0A] @ [CHR 0x04, CHR 0x04, CHR ''>'']]"

section \<open>Properties\<close>

subsection \<open>Calls on the board\<close>

lemmas device_simps =
  plain_env_def device_env_def dev_connect_def dev_write_def dev_read_until_def
  dev_read_all_def dev_softreset_def dev_close_def usable_def board_with_def
  absent_board_def open_board_def init_kernel_def no_board_def dev_sleep_def py_clock_def

subsection \<open>Shutdown\<close>

text \<open>
  C9, as the code has it: \<open>do_shutdown\<close> writes the two bytes 0x0D 0x02 (a carriage
  return, then the interrupt byte) in one write and, when that write has not raised,
  closes the board connection, in that order.  When the write raises, the exception
  leaves \<open>do_shutdown\<close> and \<open>close\<close> is not called.
\<close>

theorem do_shutdown_calls:
  "(board_write E [CHR 0x0D, CHR 0x02] (board k) = (Inr (), w1)
      \<and> board_close E w1 = (Inr (), w2)
      \<longrightarrow> do_shutdown E restart k
           = (Inr (), k\<lparr>board := w2,
                         calls := calls k @ [Write [CHR 0x0D, CHR 0x02], Close]\<rparr>))
   \<and> (board_write E [CHR 0x0D, CHR 0x02] (board k) = (Inl e, w1)
      \<longrightarrow> do_shutdown E restart k = (Inl e, k\<lparr>board := w1\<rparr>))"
  by (simp add: do_shutdown_def write_bytes_def close_def invoke_def)

theorem do_shutdown_calls_witness:
  "do_shutdown plain_env False (init_kernel (open_board []))
     = (Inr (),
        (init_kernel (open_board []))
          \<lparr>board := (open_board [])\<lparr>received := [CHR 0x0D, CHR 0x02], is_open := False\<rparr>,
           calls := [Write [CHR 0x0D, CHR 0x02], Close]\<rparr>)"
  using do_shutdown_calls
    [of plain_env "init_kernel (open_board [])"
        "(open_board [])\<lparr>received := [CHR 0x0D, CHR 0x02]\<rparr>"
        "(open_board [])\<lparr>received := [CHR 0x0D, CHR 0x02], is_open := False\<rparr>" False]
  by (simp add: device_simps)

text \<open>
  C9 as stated fails: the write of \<open>do_shutdown\<close> is not a write of the single byte
  0x02; a carriage return goes out before it, in the same write.
\<close>

theorem do_shutdown_single_byte_counterexample:
  "calls (snd (do_shutdown plain_env False (init_kernel (open_board []))))
     = [Write [CHR 0x0D, CHR 0x02], Close]
   \<and> calls (snd (do_shutdown plain_env False (init_kernel (open_board []))))
     \<noteq> [Write [CHR 0x02], Close]"
  by (simp add: do_shutdown_def write_bytes_def close_def invoke_def device_simps)

subsection \<open>Evaluation after a lost connection\<close>

lemma kernel_eval_lost:
  "run_code E (ustr ''print('' @ expr @ ustr '')'') True k = Some (Inl e, k1)
   \<Longrightarrow> e = BoardError m \<or> e = SerialException m
   \<Longrightarrow> kernel_eval E expr k = Some (Inl SyntaxError, k1)"
  by (auto simp add: kernel_eval_def literal_eval_def)

lemma run_code_absent:
  "run_code plain_env code silent (init_kernel absent_board)
     = Some (Inl no_board, init_kernel absent_board)"
  by (simp add: run_code_def run_code_send_def connect_def invoke_def device_simps)

text \<open>
  C2: with no board attached, \<open>connect\<close> raises \<open>BoardError\<close> inside \<open>run_code\<close>;
  \<open>_eval\<close> catches it, sets \<open>out = ""\<close>, and \<open>ast.literal_eval("")\<close> raises
  \<open>SyntaxError\<close> to the caller of \<open>_eval\<close>.
\<close>

theorem kernel_eval_raises_on_lost_connection:
  "kernel_eval plain_env (ustr ''dir()'') (init_kernel absent_board)
     = Some (Inl SyntaxError, init_kernel absent_board)"
  using kernel_eval_lost [OF run_code_absent] by (simp add: no_board_def)

subsection \<open>Completion\<close>

lemma length_py_split: "length (py_split sep s) = Suc (count_list s sep)"
  by (induction s) (auto split: list.splits)

text \<open>
  C10: when the text matched before the cursor holds two or more dots, the unpacking
  of \<open>prefix.rsplit('.')\<close> into two names raises \<open>ValueError\<close>, before the board is
  touched.
\<close>

theorem do_complete_two_dots:
  assumes "search_dollar (is_word E) prefix_pattern (slice_to cursor_pos code) = Some p"
    and "2 \<le> count_list p 0x2E"
  shows "do_complete E code cursor_pos k = Some (Inl ValueError, k)"
proof -
  have "0x2E \<in> set p"
    using assms(2) by (metis count_list_0_iff not_numeral_le_zero)
  moreover have "3 \<le> length (py_split 0x2E p)"
    using assms(2) by (simp add: length_py_split)
  then obtain a b c rest where "py_split 0x2E p = a # b # c # rest"
    by (auto simp add: Suc_le_length_iff numeral_3_eq_3)
  ultimately show ?thesis
    using assms(1) by (simp add: do_complete_def)
qed

lemma search_abc:
  "search_dollar (is_word E) prefix_pattern (slice_to 5 (ustr ''a.b.c'')) = Some (ustr ''a.b.c'')"
  by (simp add: search_dollar_def slice_to_def ustr_def dollar_ends_def fullmatch_def
      prefix_pattern_def is_word_def upt_rec)

theorem do_complete_two_dots_witness:
  "do_complete plain_env (ustr ''a.b.c'') 5 (init_kernel absent_board)
     = Some (Inl ValueError, init_kernel absent_board)"
  using do_complete_two_dots [OF search_abc, of plain_env "init_kernel absent_board"]
  by (simp add: ustr_def)

subsection \<open>The two loops of \<open>run_code\<close>\<close>

lemma written_append [simp]: "written (xs @ ys) = written xs @ written ys"
  by (induction xs rule: written.induct) auto

lemma sleeps_append [simp]: "sleeps (xs @ ys) = sleeps xs @ sleeps ys"
  by (induction xs rule: sleeps.induct) auto

lemma read_alls_append [simp]: "read_alls (xs @ ys) = read_alls xs @ read_alls ys"
  by (induction xs rule: read_alls.induct) auto

lemma invoke_cases:
  assumes "invoke f ev k = (r, k1)"
  obtains (raised) e w where "f (board k) = (Inl e, w)" "r = Inl e" "k1 = k\<lparr>board := w\<rparr>"
  | (returned) x w where "f (board k) = (Inr x, w)" "r = Inr x" "k1 = k\<lparr>board := w, calls := calls k @ [ev x]\<rparr>"
  using assms by (auto simp add: invoke_def split: prod.splits sum.splits)

lemma is_magic_plain: "\<not> magic_line line \<Longrightarrow> is_magic E line k = (Inr False, k)"
  by (simp add: is_magic_def magic_line_def)

lemma is_magic_handled:
  assumes "magic_line line" and "is_magic E line k = (r, k1)"
  shows "(r = Inr True \<or> (\<exists>e. r = Inl e)) \<and> iopub k1 = iopub k
         \<and> (\<exists>evs. calls k1 = calls k @ evs \<and> set evs \<subseteq> {Softreset})"
  using assms
  by (auto simp add: is_magic_def magic_line_def softreset_def Let_def
      split: if_splits prod.splits sum.splits option.splits elim!: invoke_cases)


lemma rest_calls_aux:
  assumes "run_code_rest E result k = Some y"
  shows "iopub (snd y) = iopub k \<and>
         (\<exists>evs. calls (snd y) = calls k @ evs \<and> written evs = []
            \<and> (\<forall>full. fst y = Inr full \<longrightarrow>
                 full = result @ concat (read_alls evs) \<and> endswith full [CHR 0x04, CHR ''>'']))"
  using assms
proof (induction E result k y rule: run_code_rest.raw_induct[rotated 1, consumes 1])
  case (1 rest E result k y)
  show ?case
  proof (cases "endswith result [CHR 0x04, CHR ''>'']")
    case True
    with 1(2) show ?thesis by auto
  next
    case False
    note nf = False
    obtain ra ka where ra: "read_all E k = (ra, ka)" by (cases "read_all E k")
    show ?thesis
    proof (cases ra)
      case (Inl e)
      with 1(2) nf ra show ?thesis
        by (auto simp add: read_all_def elim!: invoke_cases)
    next
      case (Inr chunk)
      note chunk = Inr
      obtain rb kb where rb: "sleep E (Finite 0.1) ka = (rb, kb)" by (cases "sleep E (Finite 0.1) ka")
      from ra chunk have ka: "iopub ka = iopub k" "calls ka = calls k @ [Read_all chunk]"
        by (auto simp add: read_all_def elim!: invoke_cases)
      show ?thesis
      proof (cases rb)
        case (Inl e)
        with 1(2) nf ra chunk rb ka show ?thesis
          by (auto simp add: sleep_def elim!: invoke_cases)
      next
        case (Inr u)
        with rb have kb: "iopub kb = iopub ka" "calls kb = calls ka @ [Sleep (Finite 0.1)]"
          by (auto simp add: sleep_def elim!: invoke_cases)
        from 1(2) nf ra chunk rb Inr have "rest E (result @ chunk) kb = Some y"
          by simp
        from 1(1)[OF this] ka kb show ?thesis by auto
      qed
    qed
  qed
qed


lemma hush_eq_iff:
  "hush k' = hush k \<longleftrightarrow>
     board k' = board k \<and> upload_delay k' = upload_delay k
     \<and> execution_count k' = execution_count k \<and> calls k' = calls k"
  by (cases k, cases k') (simp add: hush_def)

lemma hush_send_stdout [simp]: "hush (send_stdout m s k) = hush k"
  by (simp add: send_stdout_def hush_def)

lemma hush_send_stderr [simp]: "hush (send_stderr m s k) = hush k"
  by (simp add: send_stderr_def hush_def)

lemma calls_send_stdout [simp]: "calls (send_stdout m s k) = calls k"
  by (simp add: send_stdout_def)

lemma calls_send_stderr [simp]: "calls (send_stderr m s k) = calls k"
  by (simp add: send_stderr_def)

lemma same_but_iopub_refl [simp]: "same_but_iopub y y"
  by (simp add: same_but_iopub_def)

lemma invoke_hush:
  assumes "hush k' = hush k"
  shows "same_but_iopub (invoke f ev k) (invoke f ev k')"
  using assms
  by (auto simp add: same_but_iopub_def invoke_def hush_eq_iff split: prod.splits sum.splits)

lemma endswith_take:
  "endswith full [a, b] \<Longrightarrow> take (length full - 2) full @ [a, b] = full"
  by (metis append_take_drop_id endswith_def length_Cons list.size(3) numeral_2_eq_2)

lemma loop_calls_aux:
  assumes "run_code_loop E silent retval k = Some y"
  shows "\<exists>evs. calls (snd y) = calls k @ evs \<and> written evs = []
            \<and> (\<forall>rv. fst y = Inr rv \<longrightarrow>
                 rv @ [CHR 0x04, CHR ''>''] = retval @ concat (read_alls evs))"
  using assms
proof (induction E silent retval k y rule: run_code_loop.raw_induct[rotated 1, consumes 1])
  case (1 loop E silent retval k y)
  obtain ra ka where ra: "read_all E k = (ra, ka)" by (cases "read_all E k")
  show ?case
  proof (cases ra)
    case (Inl e)
    with 1(2) ra show ?thesis
      by (auto simp add: read_all_def elim!: invoke_cases)
  next
    case (Inr result)
    note result = Inr
    from ra result have ka: "calls ka = calls k @ [Read_all result]"
      by (auto simp add: read_all_def elim!: invoke_cases)
    show ?thesis
    proof (cases "CHR 0x04 \<in> set result")
      case True
      with 1(2) ra result obtain z where z: "run_code_rest E result ka = Some z"
        by (cases "run_code_rest E result ka") auto
      from rest_calls_aux[OF z] obtain evs where evs:
        "calls (snd z) = calls ka @ evs" "written evs = []"
        "\<And>full. fst z = Inr full \<Longrightarrow>
           full = result @ concat (read_alls evs) \<and> endswith full [CHR 0x04, CHR ''>'']"
        by blast
      show ?thesis
      proof (cases "fst z")
        case (Inl e)
        with 1(2) ra result True z have "y = (Inl e, snd z)"
          by (cases z) auto
        with evs ka show ?thesis by auto
      next
        case (Inr full)
        from evs(3)[OF Inr] have full: "full = result @ concat (read_alls evs)"
          and ew: "endswith full [CHR 0x04, CHR ''>'']"
          by blast+
        from ew have tk: "take (length full - 2) full @ [CHR 0x04, CHR ''>''] = full"
          by (rule endswith_take)
        from 1(2) ra result True z Inr
        have st: "calls (snd y) = calls (snd z)"
          "\<And>rv. fst y = Inr rv \<Longrightarrow> rv = retval @ take (length full - 2) full"
          by (cases z; auto simp add: Let_def split: list.splits)+
        have c: "calls (snd y) = calls k @ (Read_all result # evs)"
          using st(1) evs(1) ka by simp
        have w: "written (Read_all result # evs) = []"
          using evs(2) by simp
        have r: "\<forall>rv. fst y = Inr rv \<longrightarrow>
                   rv @ [CHR 0x04, CHR ''>''] = retval @ concat (read_alls (Read_all result # evs))"
        proof (intro allI impI)
          fix rv assume "fst y = Inr rv"
          then have "rv = retval @ take (length full - 2) full" by (rule st(2))
          then have "rv @ [CHR 0x04, CHR ''>'']
                     = retval @ (take (length full - 2) full @ [CHR 0x04, CHR ''>''])"
            by simp
          also have "\<dots> = retval @ full" by (simp only: tk)
          finally show "rv @ [CHR 0x04, CHR ''>'']
                        = retval @ concat (read_alls (Read_all result # evs))"
            using full by simp
        qed
        from c w r show ?thesis by blast
      qed
    next
      case False
      obtain rb kb where rb: "sleep E (Finite 0.1) (send_stdout (decode_utf8 result) silent ka) = (rb, kb)"
        by (cases "sleep E (Finite 0.1) (send_stdout (decode_utf8 result) silent ka)")
      show ?thesis
      proof (cases rb)
        case (Inl e)
        with 1(2) ra result False rb ka show ?thesis
          by (auto simp add: sleep_def elim!: invoke_cases)
      next
        case (Inr u)
        with rb ka have kb: "calls kb = calls k @ [Read_all result, Sleep (Finite 0.1)]"
          by (auto simp add: sleep_def elim!: invoke_cases)
        from 1(2) ra result False rb Inr
        have "loop E silent (retval @ result) kb = Some y" by simp
        from 1(1)[OF this] kb show ?thesis by auto
      qed
    qed
  qed
qed

lemma rest_hush:
  assumes "run_code_rest E result k = Some y"
  shows "\<forall>k'. hush k' = hush k \<longrightarrow>
           (\<exists>y'. run_code_rest E result k' = Some y' \<and> same_but_iopub y y')"
  using assms
proof (induction E result k y rule: run_code_rest.raw_induct[rotated 1, consumes 1])
  case (1 rest E result k y)
  show ?case
  proof (intro allI impI)
    fix k' assume h: "hush k' = hush k"
    show "\<exists>y'. run_code_rest E result k' = Some y' \<and> same_but_iopub y y'"
    proof (cases "endswith result [CHR 0x04, CHR ''>'']")
      case True
      with 1(2) h show ?thesis
        by (subst run_code_rest.simps) (auto simp add: same_but_iopub_def)
    next
      case False
      note nf = False
      obtain ra ka where ra: "read_all E k = (ra, ka)" by (cases "read_all E k")
      obtain ra' ka' where ra': "read_all E k' = (ra', ka')" by (cases "read_all E k'")
      from invoke_hush[OF h, of "board_read_all E" Read_all] ra ra'
      have a: "ra' = ra" "hush ka' = hush ka"
        by (auto simp add: read_all_def same_but_iopub_def)
      show ?thesis
      proof (cases ra)
        case (Inl e)
        with 1(2) nf ra ra' a show ?thesis
          by (subst run_code_rest.simps) (auto simp add: same_but_iopub_def)
      next
        case (Inr chunk)
        note chunk = Inr
        obtain rb kb where rb: "sleep E (Finite 0.1) ka = (rb, kb)" by (cases "sleep E (Finite 0.1) ka")
        obtain rb' kb' where rb': "sleep E (Finite 0.1) ka' = (rb', kb')" by (cases "sleep E (Finite 0.1) ka'")
        from invoke_hush[OF a(2), of "time_sleep E (Finite 0.1)" "\<lambda>_. Sleep (Finite 0.1)"] rb rb'
        have b: "rb' = rb" "hush kb' = hush kb"
          by (auto simp add: sleep_def same_but_iopub_def)
        show ?thesis
        proof (cases rb)
          case (Inl e)
          with 1(2) nf ra ra' a chunk rb rb' b show ?thesis
            by (subst run_code_rest.simps) (auto simp add: same_but_iopub_def)
        next
          case (Inr u)
          with 1(2) nf ra chunk rb have "rest E (result @ chunk) kb = Some y" by simp
          from 1(1)[OF this] b obtain y' where
            "run_code_rest E (result @ chunk) kb' = Some y'" "same_but_iopub y y'" by blast
          with nf ra' a chunk rb' b Inr show ?thesis
            by (subst run_code_rest.simps) auto
        qed
      qed
    qed
  qed
qed

lemma loop_hush:
  assumes "run_code_loop E silent retval k = Some y"
  shows "\<forall>k' silent'. hush k' = hush k \<longrightarrow>
           (\<exists>y'. run_code_loop E silent' retval k' = Some y' \<and> same_but_iopub y y')"
  using assms
proof (induction E silent retval k y rule: run_code_loop.raw_induct[rotated 1, consumes 1])
  case (1 loop E silent retval k y)
  show ?case
  proof (intro allI impI)
    fix k' silent' assume h: "hush k' = hush k"
    obtain ra ka where ra: "read_all E k = (ra, ka)" by (cases "read_all E k")
    obtain ra' ka' where ra': "read_all E k' = (ra', ka')" by (cases "read_all E k'")
    from invoke_hush[OF h, of "board_read_all E" Read_all] ra ra'
    have a: "ra' = ra" "hush ka' = hush ka"
      by (auto simp add: read_all_def same_but_iopub_def)
    show "\<exists>y'. run_code_loop E silent' retval k' = Some y' \<and> same_but_iopub y y'"
    proof (cases ra)
      case (Inl e)
      with 1(2) ra ra' a show ?thesis
        by (subst run_code_loop.simps) (auto simp add: same_but_iopub_def)
    next
      case (Inr result)
      note result = Inr
      show ?thesis
      proof (cases "CHR 0x04 \<in> set result")
        case True
        with 1(2) ra result obtain z where z: "run_code_rest E result ka = Some z"
          by (cases "run_code_rest E result ka") auto
        from rest_hush[OF z] a(2) obtain z' where
          z': "run_code_rest E result ka' = Some z'" and zz: "same_but_iopub z z'"
          by blast
        obtain rz kz where zp: "z = (rz, kz)" by (cases z)
        obtain kz' where zp': "z' = (rz, kz')" and hz: "hush kz' = hush kz"
          using zz zp by (cases z') (auto simp add: same_but_iopub_def)
        from 1(2) ra result True z zp
        have "\<exists>y'. (case Some z' of None \<Rightarrow> None
               | Some (Inl e, k2) \<Rightarrow> Some (Inl e, k2)
               | Some (Inr full, k2) \<Rightarrow>
                   (let result' = take (length full - 2) full in
                    case py_split1 (CHR 0x04) result' of
                      [out, err] \<Rightarrow>
                        Some (Inr (retval @ result'),
                              send_stderr (decode_utf8 err) silent'
                                (send_stdout (decode_utf8 out) silent' k2))
                    | _ \<Rightarrow> Some (Inl ValueError, k2))) = Some y' \<and> same_but_iopub y y'"
          using zp' hz
          by (cases rz) (auto simp add: Let_def same_but_iopub_def split: list.splits)
        with ra' a result True z' show ?thesis
          by (subst run_code_loop.simps) simp
      next
        case False
        let ?m = "decode_utf8 result"
        obtain rb kb where rb: "sleep E (Finite 0.1) (send_stdout ?m silent ka) = (rb, kb)"
          by (cases "sleep E (Finite 0.1) (send_stdout ?m silent ka)")
        obtain rb' kb' where rb': "sleep E (Finite 0.1) (send_stdout ?m silent' ka') = (rb', kb')"
          by (cases "sleep E (Finite 0.1) (send_stdout ?m silent' ka')")
        have "hush (send_stdout ?m silent' ka') = hush (send_stdout ?m silent ka)"
          using a(2) by simp
        from invoke_hush[OF this, of "time_sleep E (Finite 0.1)" "\<lambda>_. Sleep (Finite 0.1)"] rb rb'
        have b: "rb' = rb" "hush kb' = hush kb"
          by (auto simp add: sleep_def same_but_iopub_def)
        show ?thesis
        proof (cases rb)
          case (Inl e)
          with 1(2) ra ra' a result False rb rb' b show ?thesis
            by (subst run_code_loop.simps) (auto simp add: same_but_iopub_def)
        next
          case (Inr u)
          with 1(2) ra result False rb have "loop E silent (retval @ result) kb = Some y"
            by simp
          from 1(1)[OF this] b obtain y' where
            "run_code_loop E silent' (retval @ result) kb' = Some y'" "same_but_iopub y y'"
            by blast
          with ra' a result False rb' b Inr show ?thesis
            by (subst run_code_loop.simps) auto
        qed
      qed
    qed
  qed
qed

lemma run_code_hush:
  assumes "run_code E code silent k = Some y"
  shows "\<exists>y'. run_code E code silent' k = Some y' \<and> same_but_iopub y y'"
proof -
  obtain r1 k1 where s: "run_code_send E code k = (r1, k1)" by (cases "run_code_send E code k")
  show ?thesis
  proof (cases r1)
    case (Inl e)
    with s assms show ?thesis by (auto simp add: run_code_def)
  next
    case (Inr u)
    note u = Inr
    obtain r2 k2 where o: "read_until E ''OK'' k1 = (r2, k2)" by (cases "read_until E ''OK'' k1")
    show ?thesis
    proof (cases r2)
      case (Inl e)
      with s u o assms show ?thesis by (auto simp add: run_code_def)
    next
      case (Inr okb)
      with s u o assms obtain z where z: "run_code_loop E silent [] k2 = Some z"
        by (cases "run_code_loop E silent [] k2") (auto simp add: run_code_def)
      from loop_hush[OF z] obtain z' where
        z': "run_code_loop E silent' [] k2 = Some z'" and zz: "same_but_iopub z z'"
        by blast
      obtain rz kz where zp: "z = (rz, kz)" by (cases z)
      obtain kz' where zp': "z' = (rz, kz')" and hz: "hush kz' = hush kz"
        using zz zp by (cases z') (auto simp add: same_but_iopub_def)
      from s u o Inr z zp assms z' zp' hz show ?thesis
        by (cases rz) (auto simp add: run_code_def same_but_iopub_def split: list.splits)
    qed
  qed
qed

subsection \<open>The transmission phase of \<open>run_code\<close>\<close>

lemma no_reads: "\<forall>ev\<in>set evs. \<not> is_read ev \<Longrightarrow> read_alls evs = []"
  by (induction evs rule: read_alls.induct) auto

lemma write_bytes_cases:
  assumes "write_bytes E bs k = (r, k1)"
  obtains (raised) e where "r = Inl e" "calls k1 = calls k" "iopub k1 = iopub k"
      "upload_delay k1 = upload_delay k"
  | (returned) "r = Inr ()" "calls k1 = calls k @ [Write bs]" "iopub k1 = iopub k"
      "upload_delay k1 = upload_delay k"
  using assms by (auto simp add: write_bytes_def elim!: invoke_cases)

lemma sleep_cases:
  assumes "sleep E t k = (r, k1)"
  obtains (raised) e where "r = Inl e" "calls k1 = calls k" "iopub k1 = iopub k"
      "upload_delay k1 = upload_delay k"
  | (returned) "r = Inr ()" "calls k1 = calls k @ [Sleep t]" "iopub k1 = iopub k"
      "upload_delay k1 = upload_delay k"
  using assms by (auto simp add: sleep_def elim!: invoke_cases)

lemma connect_cases:
  assumes "connect E k = (r, k1)"
  obtains (raised) e where "r = Inl e" "calls k1 = calls k" "iopub k1 = iopub k"
      "upload_delay k1 = upload_delay k"
  | (returned) "r = Inr ()" "calls k1 = calls k @ [Connect]" "iopub k1 = iopub k"
      "upload_delay k1 = upload_delay k"
  using assms by (auto simp add: connect_def elim!: invoke_cases)

lemma read_until_cases:
  assumes "read_until E d k = (r, k1)"
  obtains (raised) e where "r = Inl e" "calls k1 = calls k" "iopub k1 = iopub k"
  | (returned) bs where "r = Inr bs" "calls k1 = calls k @ [Read_until d bs]" "iopub k1 = iopub k"
  using assms by (auto simp add: read_until_def elim!: invoke_cases)

lemma send_lines_plain:
  assumes "\<not> magic_line line"
  shows "send_lines E (line # rest) k =
     (case encode_utf8 line of
        Inl e \<Rightarrow> (Inl e, k)
      | Inr bs \<Rightarrow>
          (case write_bytes E bs k of
             (Inl e, k2) \<Rightarrow> (Inl e, k2)
           | (Inr _, k2) \<Rightarrow>
               (case write_bytes E [CHR 0x0D, CHR 0x0A] k2 of
                  (Inl e, k3) \<Rightarrow> (Inl e, k3)
                | (Inr _, k3) \<Rightarrow>
                    (case sleep E (upload_delay k3) k3 of
                       (Inl e, k4) \<Rightarrow> (Inl e, k4)
                     | (Inr _, k4) \<Rightarrow> send_lines E rest k4))))"
  using assms by (simp add: is_magic_plain)

lemma send_lines_calls:
  assumes "send_lines E ls k = (r, k1)"
  shows "iopub k1 = iopub k \<and>
         (\<exists>evs. calls k1 = calls k @ evs \<and> (\<forall>ev\<in>set evs. \<not> is_read ev)
            \<and> (r = Inr () \<longrightarrow>
                 (\<exists>bss. map encode_utf8 (filter (\<lambda>l. \<not> magic_line l) ls) = map Inr bss
                    \<and> written evs = concat (map (\<lambda>bs. [bs, [CHR 0x0D, CHR 0x0A]]) bss))))"
  using assms
proof (induction ls arbitrary: k)
  case Nil
  then show ?case by auto
next
  case (Cons line rest)
  show ?case
  proof (cases "magic_line line")
    case True
    obtain r0 k0 where m: "is_magic E line k = (r0, k0)" by (cases "is_magic E line k")
    from is_magic_handled[OF True m] obtain evs0 where
      r0: "r0 = Inr True \<or> (\<exists>e. r0 = Inl e)" and io0: "iopub k0 = iopub k"
      and c0: "calls k0 = calls k @ evs0" and s0: "set evs0 \<subseteq> {Softreset}"
      by blast
    from s0 have nr0: "\<forall>ev\<in>set evs0. \<not> is_read ev" and w0: "written evs0 = []"
      by (induction evs0) auto
    from r0 show ?thesis
    proof
      assume t: "r0 = Inr True"
      with m Cons.prems have "send_lines E rest k0 = (r, k1)" by simp
      from Cons.IH[OF this] obtain evs where
        e: "iopub k1 = iopub k0" "calls k1 = calls k0 @ evs" "\<forall>ev\<in>set evs. \<not> is_read ev"
        "r = Inr () \<longrightarrow>
           (\<exists>bss. map encode_utf8 (filter (\<lambda>l. \<not> magic_line l) rest) = map Inr bss
              \<and> written evs = concat (map (\<lambda>bs. [bs, [CHR 0x0D, CHR 0x0A]]) bss))"
        by blast
      have "calls k1 = calls k @ (evs0 @ evs)" using c0 e(2) by simp
      moreover have "\<forall>ev\<in>set (evs0 @ evs). \<not> is_read ev" using nr0 e(3) by auto
      moreover have "written (evs0 @ evs) = written evs" using w0 by simp
      ultimately show ?thesis using e(1,4) io0 True by (metis filter.simps(2))
    next
      assume "\<exists>e. r0 = Inl e"
      then obtain e where "r0 = Inl e" ..
      with m Cons.prems have "r = Inl e" "k1 = k0" by simp_all
      with io0 c0 nr0 show ?thesis by auto
    qed
  next
    case False
    note plain = send_lines_plain[OF False, of E rest k]
    show ?thesis
    proof (cases "encode_utf8 line")
      case (Inl e)
      with plain Cons.prems show ?thesis by auto
    next
      case (Inr bs)
      note bs = Inr
      obtain r1 ka where w1: "write_bytes E bs k = (r1, ka)" by (cases "write_bytes E bs k")
      obtain r2 kb where w2: "write_bytes E [CHR 0x0D, CHR 0x0A] ka = (r2, kb)"
        by (cases "write_bytes E [CHR 0x0D, CHR 0x0A] ka")
      obtain r3 kc where w3: "sleep E (upload_delay kb) kb = (r3, kc)"
        by (cases "sleep E (upload_delay kb) kb")
      from w1 show ?thesis
      proof (cases rule: write_bytes_cases)
        case (raised e)
        with plain bs w1 Cons.prems show ?thesis by auto
      next
        case returned
        note a = returned
        from w2 show ?thesis
        proof (cases rule: write_bytes_cases)
          case (raised e)
          with plain bs w1 a w2 Cons.prems have "r = Inl e" "k1 = kb" by simp_all
          with a raised show ?thesis by auto
        next
          case returned
          note b = returned
          from w3 show ?thesis
          proof (cases rule: sleep_cases)
            case (raised e)
            with plain bs w1 a w2 b w3 Cons.prems have "r = Inl e" "k1 = kc" by simp_all
            with a b raised show ?thesis by auto
          next
            case returned
            note c = returned
            from plain bs w1 a w2 b w3 c Cons.prems
            have "send_lines E rest kc = (r, k1)" by simp
            from Cons.IH[OF this] obtain evs where
              e: "iopub k1 = iopub kc" "calls k1 = calls kc @ evs"
              "\<forall>ev\<in>set evs. \<not> is_read ev"
              "r = Inr () \<longrightarrow>
                 (\<exists>bss. map encode_utf8 (filter (\<lambda>l. \<not> magic_line l) rest) = map Inr bss
                    \<and> written evs = concat (map (\<lambda>bs. [bs, [CHR 0x0D, CHR 0x0A]]) bss))"
              by blast
            let ?evs = "[Write bs, Write [CHR 0x0D, CHR 0x0A], Sleep (upload_delay kb)] @ evs"
            have 1: "calls k1 = calls k @ ?evs" using a b c e(2) by simp
            have 2: "\<forall>ev\<in>set ?evs. \<not> is_read ev" using e(3) by simp
            have 3: "r = Inr () \<longrightarrow>
                 (\<exists>bss. map encode_utf8 (filter (\<lambda>l. \<not> magic_line l) (line # rest)) = map Inr bss
                    \<and> written ?evs = concat (map (\<lambda>bs. [bs, [CHR 0x0D, CHR 0x0A]]) bss))"
            proof
              assume "r = Inr ()"
              with e(4) obtain bss where
                "map encode_utf8 (filter (\<lambda>l. \<not> magic_line l) rest) = map Inr bss"
                "written evs = concat (map (\<lambda>bs. [bs, [CHR 0x0D, CHR 0x0A]]) bss)"
                by blast
              then have "map encode_utf8 (filter (\<lambda>l. \<not> magic_line l) (line # rest)) = map Inr (bs # bss)
                   \<and> written ?evs = concat (map (\<lambda>bs. [bs, [CHR 0x0D, CHR 0x0A]]) (bs # bss))"
                using False bs by simp
              then show "\<exists>bss. map encode_utf8 (filter (\<lambda>l. \<not> magic_line l) (line # rest)) = map Inr bss
                    \<and> written ?evs = concat (map (\<lambda>bs. [bs, [CHR 0x0D, CHR 0x0A]]) bss)"
                by blast
            qed
            from 1 2 3 e(1) a b c show ?thesis by (intro conjI exI[of _ ?evs]) simp_all
          qed
        qed
      qed
    qed
  qed
qed

lemma run_code_send_calls:
  assumes "run_code_send E code k = (r, k1)"
  shows "iopub k1 = iopub k \<and>
         (\<exists>evs. calls k1 = calls k @ evs \<and> (\<forall>ev\<in>set evs. \<not> is_read ev)
            \<and> (r = Inr () \<longrightarrow>
                 (\<exists>bss pre. map encode_utf8 (filter (\<lambda>l. \<not> magic_line l) (splitlines code))
                        = map Inr bss
                    \<and> evs = Connect # pre @ [Write [CHR 0x0D, CHR 0x04]]
                    \<and> written pre = concat (map (\<lambda>bs. [bs, [CHR 0x0D, CHR 0x0A]]) bss))))"
proof -
  obtain r0 k0 where c: "connect E k = (r0, k0)" by (cases "connect E k")
  from c show ?thesis
  proof (cases rule: connect_cases)
    case (raised e)
    with c assms show ?thesis by (auto simp add: run_code_send_def)
  next
    case returned
    note a = returned
    obtain r2 k2 where s: "send_lines E (splitlines code) k0 = (r2, k2)"
      by (cases "send_lines E (splitlines code) k0")
    from send_lines_calls[OF s] obtain pre where
      p: "iopub k2 = iopub k0" "calls k2 = calls k0 @ pre" "\<forall>ev\<in>set pre. \<not> is_read ev"
      "r2 = Inr () \<longrightarrow>
         (\<exists>bss. map encode_utf8 (filter (\<lambda>l. \<not> magic_line l) (splitlines code)) = map Inr bss
            \<and> written pre = concat (map (\<lambda>bs. [bs, [CHR 0x0D, CHR 0x0A]]) bss))"
      by blast
    show ?thesis
    proof (cases r2)
      case (Inl e)
      with c a s assms have "r = Inl e" "k1 = k2" by (simp_all add: run_code_send_def)
      with a p show ?thesis by auto
    next
      case (Inr u)
      with c a s assms have w: "write_bytes E [CHR 0x0D, CHR 0x04] k2 = (r, k1)"
        by (simp add: run_code_send_def)
      from w show ?thesis
      proof (cases rule: write_bytes_cases)
        case (raised e)
        have "calls k1 = calls k @ (Connect # pre)" using a p raised by simp
        moreover have "\<forall>ev\<in>set (Connect # pre). \<not> is_read ev" using p(3) by simp
        ultimately show ?thesis using a p(1) raised by (intro conjI exI[of _ "Connect # pre"]) simp_all
      next
        case returned
        note b = returned
        from p(4) Inr obtain bss where bss:
          "map encode_utf8 (filter (\<lambda>l. \<not> magic_line l) (splitlines code)) = map Inr bss"
          "written pre = concat (map (\<lambda>bs. [bs, [CHR 0x0D, CHR 0x0A]]) bss)"
          by auto
        let ?evs = "Connect # pre @ [Write [CHR 0x0D, CHR 0x04]]"
        have 1: "calls k1 = calls k @ ?evs" using a p(2) b by simp
        have 2: "\<forall>ev\<in>set ?evs. \<not> is_read ev" using p(3) by simp
        have 3: "\<exists>bss pre'. map encode_utf8 (filter (\<lambda>l. \<not> magic_line l) (splitlines code))
                        = map Inr bss
                    \<and> ?evs = Connect # pre' @ [Write [CHR 0x0D, CHR 0x04]]
                    \<and> written pre' = concat (map (\<lambda>bs. [bs, [CHR 0x0D, CHR 0x0A]]) bss)"
          using bss by blast
        have 4: "iopub k1 = iopub k" using a p(1) b by simp
        from 1 2 3 4 show ?thesis by blast
      qed
    qed
  qed
qed

lemma run_code_calls:
  assumes "run_code E code silent k = Some y" and "run_code_send E code k = (Inr u, k1)"
  shows "\<exists>rds. calls (snd y) = calls k1 @ rds \<and> written rds = []
           \<and> (rds = [] \<or> (\<exists>x rest. rds = Read_until ''OK'' x # rest))
           \<and> (\<forall>out err. fst y = Inr (out, err) \<longrightarrow>
                (\<exists>buf ob eb. concat (read_alls rds) = buf @ [CHR 0x04, CHR ''>'']
                   \<and> py_split1 (CHR 0x04) buf = [ob, eb]
                   \<and> out = decode_utf8 ob \<and> err = decode_utf8 eb))"
proof -
  obtain r2 k2 where o: "read_until E ''OK'' k1 = (r2, k2)" by (cases "read_until E ''OK'' k1")
  from o show ?thesis
  proof (cases rule: read_until_cases)
    case (raised e)
    with assms o have "y = (Inl e, k2)" by (simp add: run_code_def)
    with raised show ?thesis by simp
  next
    case (returned okb)
    note a = returned
    from assms o a obtain z where z: "run_code_loop E silent [] k2 = Some z"
      by (cases "run_code_loop E silent [] k2") (auto simp add: run_code_def)
    from loop_calls_aux[OF z] obtain evs where evs:
      "calls (snd z) = calls k2 @ evs" "written evs = []"
      "\<And>rv. fst z = Inr rv \<Longrightarrow> rv @ [CHR 0x04, CHR ''>''] = concat (read_alls evs)"
      by auto
    obtain rz kz where zp: "z = (rz, kz)" by (cases z)
    let ?rds = "Read_until ''OK'' okb # evs"
    have 1: "calls (snd y) = calls k1 @ ?rds"
      using assms o a z zp evs(1)
      by (cases rz) (auto simp add: run_code_def split: list.splits)
    have 2: "written ?rds = []" using evs(2) by simp
    have 3: "\<forall>out err. fst y = Inr (out, err) \<longrightarrow>
                (\<exists>buf ob eb. concat (read_alls ?rds) = buf @ [CHR 0x04, CHR ''>'']
                   \<and> py_split1 (CHR 0x04) buf = [ob, eb]
                   \<and> out = decode_utf8 ob \<and> err = decode_utf8 eb)"
    proof (intro allI impI)
      fix out err assume f: "fst y = Inr (out, err)"
      with assms o a z zp obtain rv where rv: "rz = Inr rv"
        by (cases rz) (auto simp add: run_code_def)
      with zp evs(3) have b: "concat (read_alls ?rds) = rv @ [CHR 0x04, CHR ''>'']" by simp
      from f assms o a z zp rv obtain ob eb where
        "py_split1 (CHR 0x04) rv = [ob, eb]" "out = decode_utf8 ob" "err = decode_utf8 eb"
        by (auto simp add: run_code_def split: list.splits)
      with b show "\<exists>buf ob eb. concat (read_alls ?rds) = buf @ [CHR 0x04, CHR ''>'']
                   \<and> py_split1 (CHR 0x04) buf = [ob, eb]
                   \<and> out = decode_utf8 ob \<and> err = decode_utf8 eb"
        by blast
    qed
    from 1 2 3 show ?thesis by blast
  qed
qed

subsection \<open>Splitting a response at the control byte\<close>

lemma split_first_unique:
  "c \<notin> set a \<Longrightarrow> c \<notin> set b \<Longrightarrow> a @ c # x = b @ c # y \<Longrightarrow> a = b \<and> x = y"
proof (induction a arbitrary: b)
  case Nil
  then show ?case by (cases b) auto
next
  case (Cons h t)
  show ?case
  proof (cases b)
    case Nil
    with Cons.prems show ?thesis by auto
  next
    case (Cons h' t')
    with Cons.prems have "c \<notin> set t" "c \<notin> set t'" "t @ c # x = t' @ c # y" "h = h'" by auto
    with Cons.IH[of t'] Cons show ?thesis by simp
  qed
qed

lemma prefix_without:
  "x \<notin> set c \<Longrightarrow> c @ t = a @ x # y \<Longrightarrow> \<exists>a'. a = c @ a' \<and> t = a' @ x # y"
proof (induction c arbitrary: a)
  case Nil
  then show ?case by simp
next
  case (Cons h c)
  show ?case
  proof (cases a)
    case Nil
    with Cons.prems show ?thesis by auto
  next
    case (Cons h' a')
    with Cons.prems have "x \<notin> set c" "c @ t = a' @ x # y" "h = h'" by auto
    with Cons.IH[of a'] Cons show ?thesis by simp
  qed
qed

lemma endswith_split:
  assumes "endswith s [a, b]"
  shows "\<exists>pre. s = pre @ [a, b]"
proof -
  from endswith_take[OF assms] have "s = take (length s - 2) s @ [a, b]" by (rule sym)
  then show ?thesis by (rule exI)
qed

lemma no_early_end:
  assumes eq: "result @ tail = o2 @ c # err @ [c, g]"
    and o2: "c \<notin> set o2" and err: "c \<notin> set err" and hd: "err = [] \<or> hd err \<noteq> g"
    and g: "g \<noteq> c" and e: "endswith result [c, g]"
  shows "tail = []"
proof -
  from endswith_split[OF e] obtain pre where pre: "result = pre @ [c, g]" ..
  with eq have eq1: "pre @ c # (g # tail) = o2 @ c # (err @ [c, g])" by simp
  show ?thesis
  proof (cases "c \<in> set pre")
    case False
    from split_first_unique[OF False o2 eq1] have t: "g # tail = err @ [c, g]" by simp
    show ?thesis
    proof (cases err)
      case Nil
      with t g show ?thesis by simp
    next
      case (Cons e1 es)
      with t hd show ?thesis by simp
    qed
  next
    case True
    then obtain a p2 where p: "pre = a @ c # p2" "c \<notin> set a"
      using split_list_first[of c pre] by blast
    with eq1 have "a @ c # (p2 @ c # g # tail) = o2 @ c # (err @ [c, g])" by simp
    from split_first_unique[OF p(2) o2 this]
    have eq2: "p2 @ c # (g # tail) = err @ c # [g]" by simp
    show ?thesis
    proof (cases "c \<in> set p2")
      case False
      from split_first_unique[OF False err eq2] show ?thesis by simp
    next
      case True
      then obtain b p3 where q: "p2 = b @ c # p3" "c \<notin> set b"
        using split_list_first[of c p2] by blast
      with eq2 have "b @ c # (p3 @ c # g # tail) = err @ c # [g]" by simp
      from split_first_unique[OF q(2) err this] have "p3 @ c # g # tail = [g]" by simp
      then have "length (p3 @ c # g # tail) = length [g]" by (rule arg_cong)
      then show ?thesis by simp
    qed
  qed
qed

subsection \<open>Running against the scripted device\<close>

lemma dev_connect_ok:
  "attached (board k) \<Longrightarrow>
   \<exists>k1. connect (device_env ck fl lit al) k = (Inr (), k1) \<and> usable (board k1)
      \<and> pending (board k1) = pending (board k) \<and> iopub k1 = iopub k
      \<and> upload_delay k1 = upload_delay k"
  by (simp add: connect_def invoke_def device_env_def dev_connect_def usable_def)

lemma dev_write_ok:
  "usable (board k) \<Longrightarrow>
   \<exists>k1. write_bytes (device_env ck fl lit al) bs k = (Inr (), k1) \<and> usable (board k1)
      \<and> pending (board k1) = pending (board k) \<and> iopub k1 = iopub k
      \<and> upload_delay k1 = upload_delay k"
  by (simp add: write_bytes_def invoke_def device_env_def dev_write_def usable_def)

lemma dev_sleep_ok:
  "ck t = None \<Longrightarrow>
   \<exists>k1. sleep (device_env ck fl lit al) t k = (Inr (), k1) \<and> board k1 = board k
      \<and> iopub k1 = iopub k \<and> upload_delay k1 = upload_delay k"
  by (simp add: sleep_def invoke_def device_env_def dev_sleep_def)

lemma dev_is_magic_ok:
  "usable (board k) \<Longrightarrow>
   \<exists>k1. is_magic (device_env ck fl lit al) line k = (Inr (magic_line line), k1)
      \<and> usable (board k1) \<and> pending (board k1) = pending (board k) \<and> iopub k1 = iopub k
      \<and> upload_delay k1
          = (case line_delay (device_env ck fl lit al) line of
               None \<Rightarrow> upload_delay k | Some d \<Rightarrow> d)"
  by (auto simp add: is_magic_def magic_line_def line_delay_def softreset_def invoke_def
      device_env_def dev_softreset_def usable_def Let_def split: option.splits)

lemma dev_send_lines_ok:
  assumes "usable (board k)"
    and "\<forall>l\<in>set ls. \<not> magic_line l \<longrightarrow> (\<exists>bs. encode_utf8 l = Inr bs)"
    and "ck (upload_delay k) = None"
    and "\<forall>l\<in>set ls. \<forall>d. line_delay (device_env ck fl lit al) l = Some d \<longrightarrow> ck d = None"
  shows "\<exists>k1. send_lines (device_env ck fl lit al) ls k = (Inr (), k1) \<and> usable (board k1)
      \<and> pending (board k1) = pending (board k) \<and> iopub k1 = iopub k"
  using assms
proof (induction ls arbitrary: k)
  case Nil
  then show ?case by simp
next
  case (Cons line rest)
  let ?E = "device_env ck fl lit al"
  from dev_is_magic_ok[OF Cons.prems(1), of ck fl lit al line] obtain k0 where
    m: "is_magic ?E line k = (Inr (magic_line line), k0)" "usable (board k0)"
    "pending (board k0) = pending (board k)" "iopub k0 = iopub k"
    and d0: "upload_delay k0
          = (case line_delay ?E line of None \<Rightarrow> upload_delay k | Some d \<Rightarrow> d)"
    by blast
  from Cons.prems(2)
  have enc: "\<forall>l\<in>set rest. \<not> magic_line l \<longrightarrow> (\<exists>bs. encode_utf8 l = Inr bs)"
    by simp
  from Cons.prems(4)
  have dl: "\<forall>l\<in>set rest. \<forall>d. line_delay ?E l = Some d \<longrightarrow> ck d = None"
    by simp
  have c0: "ck (upload_delay k0) = None"
    using d0 Cons.prems(3,4) by (cases "line_delay ?E line") simp_all
  show ?case
  proof (cases "magic_line line")
    case True
    from Cons.IH[OF m(2) enc c0 dl] m True show ?thesis by auto
  next
    case False
    with Cons.prems(2) obtain bs where bs: "encode_utf8 line = Inr bs" by auto
    from dev_write_ok[OF m(2), of ck fl lit al bs] obtain ka where
      a: "write_bytes ?E bs k0 = (Inr (), ka)" "usable (board ka)"
      "pending (board ka) = pending (board k0)" "iopub ka = iopub k0"
      "upload_delay ka = upload_delay k0"
      by blast
    from dev_write_ok[OF a(2), of ck fl lit al "[CHR 0x0D, CHR 0x0A]"] obtain kb where
      b: "write_bytes ?E [CHR 0x0D, CHR 0x0A] ka = (Inr (), kb)" "usable (board kb)"
      "pending (board kb) = pending (board ka)" "iopub kb = iopub ka"
      "upload_delay kb = upload_delay ka"
      by blast
    have "ck (upload_delay kb) = None" using c0 a(5) b(5) by simp
    from dev_sleep_ok[of ck "upload_delay kb" fl lit al kb, OF this] obtain kc where
      c: "sleep ?E (upload_delay kb) kb = (Inr (), kc)" "board kc = board kb"
      "iopub kc = iopub kb" "upload_delay kc = upload_delay kb"
      by blast
    from b(2) c(2) have u: "usable (board kc)" by simp
    have "ck (upload_delay kc) = None" using c0 a(5) b(5) c(4) by simp
    from Cons.IH[OF u enc this dl] obtain k1 where
      "send_lines ?E rest kc = (Inr (), k1)" "usable (board k1)"
      "pending (board k1) = pending (board kc)" "iopub k1 = iopub kc"
      by blast
    with m False bs a b c show ?thesis by simp
  qed
qed

lemma dev_send_ok:
  assumes "attached (board k)"
    and "\<forall>l\<in>set (splitlines code). \<not> magic_line l \<longrightarrow> (\<exists>bs. encode_utf8 l = Inr bs)"
    and "ck (upload_delay k) = None"
    and "\<forall>l\<in>set (splitlines code). \<forall>d.
           line_delay (device_env ck fl lit al) l = Some d \<longrightarrow> ck d = None"
  shows "\<exists>k1. run_code_send (device_env ck fl lit al) code k = (Inr (), k1) \<and> usable (board k1)
      \<and> pending (board k1) = pending (board k) \<and> iopub k1 = iopub k"
proof -
  let ?E = "device_env ck fl lit al"
  from dev_connect_ok[OF assms(1), of ck fl lit al] obtain k0 where
    c: "connect ?E k = (Inr (), k0)" "usable (board k0)"
    "pending (board k0) = pending (board k)" "iopub k0 = iopub k"
    "upload_delay k0 = upload_delay k"
    by blast
  have "ck (upload_delay k0) = None" using assms(3) c(5) by simp
  from dev_send_lines_ok[where ck = ck, OF c(2) assms(2) this assms(4)] obtain ka where
    a: "send_lines ?E (splitlines code) k0 = (Inr (), ka)" "usable (board ka)"
    "pending (board ka) = pending (board k0)" "iopub ka = iopub k0"
    by blast
  from dev_write_ok[OF a(2), of ck fl lit al "[CHR 0x0D, CHR 0x04]"] obtain kb where
    b: "write_bytes ?E [CHR 0x0D, CHR 0x04] ka = (Inr (), kb)" "usable (board kb)"
    "pending (board kb) = pending (board ka)" "iopub kb = iopub ka"
    by blast
  from c a b show ?thesis by (simp add: run_code_send_def)
qed

lemma concat_drop_bytes: "concat (drop_bytes n cs) = drop n (concat cs)"
  by (induction n cs rule: drop_bytes.induct) auto

lemma dev_read_until_ok:
  assumes "usable (board k)" and "concat (pending (board k)) = ''OK'' @ rest"
  shows "\<exists>k1. read_until (device_env ck fl lit al) ''OK'' k = (Inr ''OK'', k1) \<and> usable (board k1)
      \<and> concat (pending (board k1)) = rest \<and> iopub k1 = iopub k"
  using assms
  by (simp add: read_until_def invoke_def device_env_def dev_read_until_def usable_def
      Let_def startswith_def concat_drop_bytes)

lemma dev_read_all_cons:
  assumes "usable (board k)" and "pending (board k) = c # cs"
  shows "\<exists>k1. read_all (device_env ck fl lit al) k = (Inr c, k1) \<and> usable (board k1)
      \<and> pending (board k1) = cs \<and> iopub k1 = iopub k"
  using assms
  by (simp add: read_all_def invoke_def device_env_def dev_read_all_def usable_def)

lemma endswith_append_end: "endswith (xs @ [a, b]) [a, b]"
  by (simp add: endswith_def)

lemma dev_rest:
  assumes "pending (board k) = cs" and "usable (board k)"
    and "result @ concat cs = o2 @ c # err @ [c, g]"
    and "c \<notin> set o2" and "c \<notin> set err" and "err = [] \<or> hd err \<noteq> g" and "g \<noteq> c"
    and "c = CHR 0x04" and "g = CHR ''>''"
    and sl: "ck (Finite 0.1) = None"
  shows "\<exists>k2. run_code_rest (device_env ck fl lit al) result k = Some (Inr (o2 @ c # err @ [c, g]), k2)
           \<and> iopub k2 = iopub k"
  using assms(1-3)
proof (induction cs arbitrary: result k)
  case Nil
  then have "result = (o2 @ c # err) @ [c, g]" by simp
  then have "endswith result [c, g]" by (simp only: endswith_append_end)
  with Nil assms(8,9) show ?case
    by (subst run_code_rest.simps) simp
next
  case (Cons ch cs)
  let ?E = "device_env ck fl lit al"
  show ?case
  proof (cases "endswith result [c, g]")
    case True
    have e: "concat (ch # cs) = []"
      by (rule no_early_end[OF Cons.prems(3) assms(4,5,6,7) True])
    have "result = o2 @ c # err @ [c, g]"
      using Cons.prems(3) unfolding e by simp
    with True assms(8,9) show ?thesis
      by (subst run_code_rest.simps) simp
  next
    case False
    from dev_read_all_cons[OF Cons.prems(2,1), of ck fl lit al] obtain ka where
      a: "read_all ?E k = (Inr ch, ka)" "usable (board ka)" "pending (board ka) = cs"
      "iopub ka = iopub k"
      by blast
    from dev_sleep_ok[of ck "Finite 0.1" fl lit al ka, OF sl] obtain kb where
      b: "sleep ?E (Finite 0.1) ka = (Inr (), kb)" "board kb = board ka" "iopub kb = iopub ka"
      by blast
    have "pending (board kb) = cs" "usable (board kb)" using a b by simp_all
    moreover have "(result @ ch) @ concat cs = o2 @ c # err @ [c, g]"
      using Cons.prems(3) by simp
    ultimately obtain k2 where
      "run_code_rest ?E (result @ ch) kb = Some (Inr (o2 @ c # err @ [c, g]), k2)"
      "iopub k2 = iopub kb"
      using Cons.IH[of kb "result @ ch"] by blast
    with False a b assms(8,9) show ?thesis
      by (subst run_code_rest.simps) simp
  qed
qed

lemma takeWhile_first: "c \<notin> set a \<Longrightarrow> takeWhile (\<lambda>x. x \<noteq> c) (a @ c # b) = a"
  by (induction a) auto

lemma dropWhile_first: "c \<notin> set a \<Longrightarrow> dropWhile (\<lambda>x. x \<noteq> c) (a @ c # b) = c # b"
  by (induction a) auto

lemma py_split1_first:
  "c \<notin> set a \<Longrightarrow> py_split1 c (a @ c # b) = [a, b]"
  by (simp add: py_split1_def takeWhile_first dropWhile_first)

lemma dev_loop:
  assumes "pending (board k) = cs" and "usable (board k)"
    and "concat cs = o2 @ CHR 0x04 # err @ [CHR 0x04, CHR ''>'']"
    and "CHR 0x04 \<notin> set o2" and "CHR 0x04 \<notin> set err"
    and "err = [] \<or> hd err \<noteq> CHR ''>''"
    and sl: "ck (Finite 0.1) = None"
  shows "\<exists>k2. run_code_loop (device_env ck fl lit al) silent retval k
               = Some (Inr (retval @ o2 @ CHR 0x04 # err), k2)
           \<and> (silent \<longrightarrow> iopub k2 = iopub k)"
  using assms(1-4)
proof (induction cs arbitrary: retval o2 k)
  case Nil
  then show ?case by simp
next
  case (Cons ch cs)
  let ?E = "device_env ck fl lit al"
  from dev_read_all_cons[OF Cons.prems(2,1), of ck fl lit al] obtain ka where
    a: "read_all ?E k = (Inr ch, ka)" "usable (board ka)" "pending (board ka) = cs"
    "iopub ka = iopub k"
    by blast
  show ?case
  proof (cases "CHR 0x04 \<in> set ch")
    case True
    have "ch @ concat cs = o2 @ CHR 0x04 # err @ [CHR 0x04, CHR ''>'']"
      using Cons.prems(3) by simp
    from dev_rest[OF a(3,2) this Cons.prems(4) assms(5,6), of ck fl lit al] sl
    obtain k2 where r:
      "run_code_rest ?E ch ka = Some (Inr (o2 @ CHR 0x04 # err @ [CHR 0x04, CHR ''>'']), k2)"
      "iopub k2 = iopub ka"
      by auto
    have t: "take (length (o2 @ CHR 0x04 # err @ [CHR 0x04, CHR ''>'']) - 2)
               (o2 @ CHR 0x04 # err @ [CHR 0x04, CHR ''>'']) = o2 @ CHR 0x04 # err"
      by simp
    have s: "py_split1 (CHR 0x04) (o2 @ CHR 0x04 # err) = [o2, err]"
      using Cons.prems(4) by (rule py_split1_first)
    from a True r t s show ?thesis
      by (subst run_code_loop.simps)
        (simp add: Let_def send_stdout_def send_stderr_def del: append.simps length_append)
  next
    case False
    from prefix_without[OF False, of "concat cs" o2 "err @ [CHR 0x04, CHR ''>'']"] Cons.prems(3)
    obtain o3 where o3: "o2 = ch @ o3" "concat cs = o3 @ CHR 0x04 # err @ [CHR 0x04, CHR ''>'']"
      by auto
    let ?ks = "send_stdout (decode_utf8 ch) silent ka"
    from dev_sleep_ok[of ck "Finite 0.1" fl lit al ?ks, OF sl] obtain kb where
      b: "sleep ?E (Finite 0.1) ?ks = (Inr (), kb)" "board kb = board ?ks" "iopub kb = iopub ?ks"
      by blast
    have kb: "pending (board kb) = cs" "usable (board kb)"
      using a b by (simp_all add: send_stdout_def)
    have "CHR 0x04 \<notin> set o3" using Cons.prems(4) o3(1) by simp
    from Cons.IH[OF kb o3(2) this, of "retval @ ch"] obtain k2 where
      "run_code_loop ?E silent (retval @ ch) kb = Some (Inr ((retval @ ch) @ o3 @ CHR 0x04 # err), k2)"
      "silent \<longrightarrow> iopub k2 = iopub kb"
      by blast
    with a False b o3(1) show ?thesis
      by (subst run_code_loop.simps) (simp add: send_stdout_def)
  qed
qed

lemma dev_run_code:
  assumes "attached (board k)"
    and "concat (pending (board k)) = ''OK'' @ out @ CHR 0x04 # err @ [CHR 0x04, CHR ''>'']"
    and "CHR 0x04 \<notin> set out" and "CHR 0x04 \<notin> set err"
    and "err = [] \<or> hd err \<noteq> CHR ''>''"
    and "\<forall>l\<in>set (splitlines code). \<not> magic_line l \<longrightarrow> (\<exists>bs. encode_utf8 l = Inr bs)"
    and "ck (upload_delay k) = None"
    and "\<forall>l\<in>set (splitlines code). \<forall>d.
           line_delay (device_env ck fl lit al) l = Some d \<longrightarrow> ck d = None"
    and "ck (Finite 0.1) = None"
  shows "\<exists>k'. run_code (device_env ck fl lit al) code silent k
               = Some (Inr (decode_utf8 out, decode_utf8 err), k')
           \<and> (silent \<longrightarrow> iopub k' = iopub k)"
proof -
  let ?E = "device_env ck fl lit al"
  from dev_send_ok[where ck = ck, OF assms(1,6,7,8)] obtain k1 where
    s: "run_code_send ?E code k = (Inr (), k1)" "usable (board k1)"
    "pending (board k1) = pending (board k)" "iopub k1 = iopub k"
    by blast
  from s(3) assms(2)
  have "concat (pending (board k1)) = ''OK'' @ (out @ CHR 0x04 # err @ [CHR 0x04, CHR ''>''])"
    by simp
  from dev_read_until_ok[OF s(2) this, of ck fl lit al] obtain k2 where
    r: "read_until ?E ''OK'' k1 = (Inr ''OK'', k2)" "usable (board k2)"
    "concat (pending (board k2)) = out @ CHR 0x04 # err @ [CHR 0x04, CHR ''>'']"
    "iopub k2 = iopub k1"
    by blast
  from dev_loop[where ck = ck, OF refl r(2,3) assms(3,4,5,9), of fl lit al silent "[]"] obtain k3 where
    l: "run_code_loop ?E silent [] k2 = Some (Inr (out @ CHR 0x04 # err), k3)"
    "silent \<longrightarrow> iopub k3 = iopub k2"
    by auto
  have "py_split1 (CHR 0x04) (out @ CHR 0x04 # err) = [out, err]"
    using assms(3) by (rule py_split1_first)
  with s r l show ?thesis by (simp add: run_code_def)
qed

subsection \<open>Failures during execution\<close>

text \<open>
  C4: \<open>do_execute\<close> never lets a \<open>BoardError\<close>, a \<open>SerialException\<close> or a
  \<open>KeyboardInterrupt\<close> out; when \<open>run_code\<close> raises one of them, it sends one stderr
  message that describes the failure (also when \<open>silent\<close> is set) and returns a reply
  whose status is \<open>ok\<close>.
\<close>

theorem do_execute_reports_ok:
  "(\<forall>e k'. do_execute E code silent k = Some (Inl e, k') \<longrightarrow>
       e \<noteq> KeyboardInterrupt \<and> (\<forall>m. e \<noteq> BoardError m \<and> e \<noteq> SerialException m))
   \<and> (strip code \<noteq> [] \<and> run_code E code silent k = Some (Inl e, k1)
        \<and> (e = BoardError m \<or> e = SerialException m) \<longrightarrow>
       (\<exists>k2. do_execute E code silent k = Some (Inr (ok_reply k2), k2)
          \<and> status (ok_reply k2) = ''ok''
          \<and> iopub k2 = iopub k1 @ [(''stderr'', ustr ''No connection to CiruitPython VM: '' @ m)]))
   \<and> (strip code \<noteq> [] \<and> run_code E code silent k = Some (Inl KeyboardInterrupt, k1) \<longrightarrow>
       (\<exists>k2. do_execute E code silent k = Some (Inr (ok_reply k2), k2)
          \<and> status (ok_reply k2) = ''ok''
          \<and> iopub k2 = iopub k1 @ [(''stderr'', ustr ''Keyboard Interrupt'')]))"
proof (intro conjI allI impI)
  fix e k' assume a: "do_execute E code silent k = Some (Inl e, k')"
  show "e \<noteq> KeyboardInterrupt"
    using a by (auto simp add: do_execute_def Let_def split: if_splits option.splits prod.splits sum.splits exn.splits)
  fix m
  show "e \<noteq> BoardError m"
    using a by (auto simp add: do_execute_def Let_def split: if_splits option.splits prod.splits sum.splits exn.splits)
  show "e \<noteq> SerialException m"
    using a by (auto simp add: do_execute_def Let_def split: if_splits option.splits prod.splits sum.splits exn.splits)
next
  assume "strip code \<noteq> [] \<and> run_code E code silent k = Some (Inl e, k1)
        \<and> (e = BoardError m \<or> e = SerialException m)"
  then show "\<exists>k2. do_execute E code silent k = Some (Inr (ok_reply k2), k2)
          \<and> status (ok_reply k2) = ''ok''
          \<and> iopub k2 = iopub k1 @ [(''stderr'', ustr ''No connection to CiruitPython VM: '' @ m)]"
    by (auto simp add: do_execute_def Let_def send_stderr_def ok_reply_def ustr_def)
next
  assume "strip code \<noteq> [] \<and> run_code E code silent k = Some (Inl KeyboardInterrupt, k1)"
  then show "\<exists>k2. do_execute E code silent k = Some (Inr (ok_reply k2), k2)
          \<and> status (ok_reply k2) = ''ok''
          \<and> iopub k2 = iopub k1 @ [(''stderr'', ustr ''Keyboard Interrupt'')]"
    by (auto simp add: do_execute_def Let_def send_stderr_def ok_reply_def ustr_def)
qed

lemma strip_x: "strip (ustr ''x'') \<noteq> []"
  by (simp add: strip_def ustr_def is_space_def)

theorem do_execute_reports_ok_witness:
  "do_execute plain_env (ustr ''x'') True (init_kernel absent_board)
     = Some (Inr (ok_reply (init_kernel absent_board)),
             (init_kernel absent_board)
               \<lparr>iopub := [(''stderr'', ustr ''No connection to CiruitPython VM: board not found'')]\<rparr>)"
proof -
  let ?k = "init_kernel absent_board"
  have r: "run_code plain_env (ustr ''x'') True ?k = Some (Inl (BoardError (ustr ''board not found'')), ?k)"
    using run_code_absent[of "ustr ''x''" True] by (simp add: no_board_def)
  from do_execute_reports_ok[of plain_env "ustr ''x''" True ?k "BoardError (ustr ''board not found'')" ?k "ustr ''board not found''"]
    strip_x r
  obtain k2 where k2: "do_execute plain_env (ustr ''x'') True ?k = Some (Inr (ok_reply k2), k2)"
    "iopub k2 = iopub ?k @ [(''stderr'', ustr ''No connection to CiruitPython VM: '' @ ustr ''board not found'')]"
    by auto
  have "do_execute plain_env (ustr ''x'') True ?k
        = Some (Inr (ok_reply (send_stderr (ustr ''No connection to CiruitPython VM: '' @ ustr ''board not found'') False ?k)),
            send_stderr (ustr ''No connection to CiruitPython VM: '' @ ustr ''board not found'') False ?k)"
    using r strip_x by (simp add: do_execute_def Let_def)
  with k2 show ?thesis
    by (simp add: send_stderr_def ok_reply_def ustr_def init_kernel_def)
qed

subsection \<open>The upload delay\<close>

lemma send_lines_sleeps:
  assumes "\<forall>l\<in>set ls. \<not> magic_line l" and "send_lines E ls k = (Inr u, k1)"
  shows "\<exists>evs. calls k1 = calls k @ evs \<and> sleeps evs = replicate (length ls) (upload_delay k)"
  using assms
proof (induction ls arbitrary: k)
  case Nil
  then show ?case by simp
next
  case (Cons line rest)
  from Cons.prems(1) have nm: "\<not> magic_line line" and rest: "\<forall>l\<in>set rest. \<not> magic_line l"
    by simp_all
  note plain = send_lines_plain[OF nm, of E rest k]
  from plain Cons.prems(2) obtain bs where bs: "encode_utf8 line = Inr bs"
    by (cases "encode_utf8 line") auto
  obtain r1 ka where w1: "write_bytes E bs k = (r1, ka)" by (cases "write_bytes E bs k")
  obtain r2 kb where w2: "write_bytes E [CHR 0x0D, CHR 0x0A] ka = (r2, kb)"
    by (cases "write_bytes E [CHR 0x0D, CHR 0x0A] ka")
  obtain r3 kc where w3: "sleep E (upload_delay kb) kb = (r3, kc)"
    by (cases "sleep E (upload_delay kb) kb")
  from plain bs w1 Cons.prems(2) have r1: "r1 = Inr ()" by (cases r1) auto
  from plain bs w1 r1 w2 Cons.prems(2) have r2: "r2 = Inr ()" by (cases r2) auto
  from plain bs w1 r1 w2 r2 w3 Cons.prems(2) have r3: "r3 = Inr ()" by (cases r3) auto
  from plain bs w1 r1 w2 r2 w3 r3 Cons.prems(2) have s: "send_lines E rest kc = (Inr u, k1)"
    by simp
  from w1 r1 have a: "calls ka = calls k @ [Write bs]" "upload_delay ka = upload_delay k"
    by (auto elim: write_bytes_cases)
  from w2 r2 have b: "calls kb = calls ka @ [Write [CHR 0x0D, CHR 0x0A]]"
    "upload_delay kb = upload_delay ka"
    by (auto elim: write_bytes_cases)
  from w3 r3 have c: "calls kc = calls kb @ [Sleep (upload_delay kb)]"
    "upload_delay kc = upload_delay kb"
    by (auto elim: sleep_cases)
  from Cons.IH[OF rest s] obtain evs where
    e: "calls k1 = calls kc @ evs" "sleeps evs = replicate (length rest) (upload_delay kc)"
    by blast
  let ?evs = "[Write bs, Write [CHR 0x0D, CHR 0x0A], Sleep (upload_delay k)] @ evs"
  have "calls k1 = calls k @ ?evs" using a b c e(1) by simp
  moreover have "sleeps ?evs = replicate (length (line # rest)) (upload_delay k)"
    using a b c e(2) by simp
  ultimately show ?case by blast
qed

lemma startswith_take: "startswith s p \<Longrightarrow> n \<le> length p \<Longrightarrow> take n s = take n p"
proof -
  assume a: "startswith s p" and n: "n \<le> length p"
  from n have "take n s = take n (take (length p) s)" by (simp add: min_def)
  with a show ?thesis by (simp add: startswith_def)
qed

lemma upload_delay_not_softreset:
  "startswith line (ustr ''%upload_delay'') \<Longrightarrow> \<not> startswith line (ustr ''%softreset'')"
proof
  assume a: "startswith line (ustr ''%upload_delay'')" and b: "startswith line (ustr ''%softreset'')"
  have "take 2 line = take 2 (ustr ''%upload_delay'')"
    by (rule startswith_take[OF a]) (simp add: ustr_def)
  moreover have "take 2 line = take 2 (ustr ''%softreset'')"
    by (rule startswith_take[OF b]) (simp add: ustr_def)
  ultimately have "take 2 (ustr ''%upload_delay'') = take 2 (ustr ''%softreset'')"
    by simp
  then show False by (simp add: ustr_def)
qed

text \<open>
  C6: given that \<open>float\<close> reads the text \<open>0.5\<close> as 0.5, the line \<open>%upload_delay 0.5\<close>
  is handled, sets the delay to 0.5, and every line sent after it in the block is
  followed by a sleep of 0.5; given that \<open>float\<close> rejects \<open>abc\<close>, the line
  \<open>%upload_delay abc\<close> is handled, raises nothing and leaves the kernel as it was.
  So does every line that begins with \<open>%upload_delay\<close> and whose argument is
  malformed, that is, \<open>line.split(' ')\<close> has no second field or \<open>float\<close> rejects
  it: the line is handled, nothing is raised, the kernel is as it was, and every line
  sent after it in the block is followed by a sleep of the delay set before.
\<close>

theorem is_magic_upload_delay:
  "(float_of_str E (ustr ''0.5'') = Some (Finite 0.5) \<longrightarrow>
      is_magic E (ustr ''%upload_delay 0.5'') k = (Inr True, k\<lparr>upload_delay := Finite 0.5\<rparr>)
      \<and> ((\<forall>l\<in>set ls. \<not> magic_line l)
           \<and> send_lines E (ustr ''%upload_delay 0.5'' # ls) k = (Inr u, k1) \<longrightarrow>
         sleeps (new_calls k k1) = replicate (length ls) (Finite 0.5)))
   \<and> (float_of_str E (ustr ''abc'') = None \<longrightarrow>
      is_magic E (ustr ''%upload_delay abc'') k = (Inr True, k))
   \<and> (startswith line (ustr ''%upload_delay'')
        \<and> (length (py_split 0x20 line) \<le> 1 \<or> float_of_str E (py_split 0x20 line ! 1) = None)
      \<longrightarrow>
      is_magic E line k = (Inr True, k)
      \<and> ((\<forall>l\<in>set ls. \<not> magic_line l) \<and> send_lines E (line # ls) k = (Inr u, k1) \<longrightarrow>
         sleeps (new_calls k k1) = replicate (length ls) (upload_delay k)))"
proof (intro conjI impI)
  assume f: "float_of_str E (ustr ''0.5'') = Some (Finite 0.5)"
  then show m: "is_magic E (ustr ''%upload_delay 0.5'') k = (Inr True, k\<lparr>upload_delay := Finite 0.5\<rparr>)"
    by (simp add: is_magic_def startswith_def ustr_def Let_def)
  assume "(\<forall>l\<in>set ls. \<not> magic_line l)
           \<and> send_lines E (ustr ''%upload_delay 0.5'' # ls) k = (Inr u, k1)"
  then have nm: "\<forall>l\<in>set ls. \<not> magic_line l"
    and s: "send_lines E ls (k\<lparr>upload_delay := Finite 0.5\<rparr>) = (Inr u, k1)"
    using m by simp_all
  from send_lines_sleeps[OF nm s] obtain evs where
    "calls k1 = calls k @ evs" "sleeps evs = replicate (length ls) (Finite 0.5)"
    by auto
  then show "sleeps (new_calls k k1) = replicate (length ls) (Finite 0.5)"
    by (simp add: new_calls_def)
next
  assume "float_of_str E (ustr ''abc'') = None"
  then show "is_magic E (ustr ''%upload_delay abc'') k = (Inr True, k)"
    by (simp add: is_magic_def startswith_def ustr_def Let_def)
next
  assume a: "startswith line (ustr ''%upload_delay'')
        \<and> (length (py_split 0x20 line) \<le> 1 \<or> float_of_str E (py_split 0x20 line ! 1) = None)"
  then have "\<not> startswith line (ustr ''%softreset'')"
    by (simp add: upload_delay_not_softreset)
  with a show m: "is_magic E line k = (Inr True, k)"
    by (auto simp add: is_magic_def Let_def)
  assume "(\<forall>l\<in>set ls. \<not> magic_line l) \<and> send_lines E (line # ls) k = (Inr u, k1)"
  then have nm: "\<forall>l\<in>set ls. \<not> magic_line l"
    and s: "send_lines E ls k = (Inr u, k1)"
    using m by simp_all
  from send_lines_sleeps[OF nm s] obtain evs where
    "calls k1 = calls k @ evs" "sleeps evs = replicate (length ls) (upload_delay k)"
    by auto
  then show "sleeps (new_calls k k1) = replicate (length ls) (upload_delay k)"
    by (simp add: new_calls_def)
qed

lemma not_magic_x: "\<not> magic_line (ustr ''x'')"
  by (simp add: magic_line_def startswith_def ustr_def)

lemma send_after_delay:
  "send_lines plain_env [ustr ''%upload_delay 0.5'', ustr ''x''] (init_kernel (open_board []))
     = (Inr (),
        (init_kernel (open_board []))
          \<lparr>board := (open_board [])\<lparr>received := ''x'' @ [CHR 0x0D, CHR 0x0A]\<rparr>,
           upload_delay := Finite 0.5,
           calls := [Write ''x'', Write [CHR 0x0D, CHR 0x0A], Sleep (Finite 0.5)]\<rparr>)"
  by (simp add: is_magic_def startswith_def ustr_def Let_def encode_cp_def write_bytes_def
      sleep_def invoke_def device_simps one_float_def char_of_eq_iff)

lemma send_after_no_argument:
  "send_lines plain_env [ustr ''%upload_delay'', ustr ''x''] (init_kernel (open_board []))
     = (Inr (),
        (init_kernel (open_board []))
          \<lparr>board := (open_board [])\<lparr>received := ''x'' @ [CHR 0x0D, CHR 0x0A]\<rparr>,
           calls := [Write ''x'', Write [CHR 0x0D, CHR 0x0A], Sleep (Finite 0.06)]\<rparr>)"
  by (simp add: is_magic_def startswith_def ustr_def Let_def encode_cp_def write_bytes_def
      sleep_def invoke_def device_simps one_float_def char_of_eq_iff)

lemma no_argument:
  "startswith (ustr ''%upload_delay'') (ustr ''%upload_delay'')
   \<and> length (py_split 0x20 (ustr ''%upload_delay'')) \<le> 1"
  by (simp add: startswith_def ustr_def)

theorem is_magic_upload_delay_witness:
  "is_magic plain_env (ustr ''%upload_delay 0.5'') (init_kernel (open_board []))
     = (Inr True, (init_kernel (open_board []))\<lparr>upload_delay := Finite 0.5\<rparr>)
   \<and> sleeps [Write ''x'', Write [CHR 0x0D, CHR 0x0A], Sleep (Finite 0.5)]
     = replicate (length [ustr ''x'']) (Finite 0.5)
   \<and> is_magic plain_env (ustr ''%upload_delay abc'') (init_kernel (open_board []))
     = (Inr True, init_kernel (open_board []))
   \<and> is_magic plain_env (ustr ''%upload_delay'') (init_kernel (open_board []))
     = (Inr True, init_kernel (open_board []))
   \<and> sleeps [Write ''x'', Write [CHR 0x0D, CHR 0x0A], Sleep (Finite 0.06)]
     = replicate (length [ustr ''x'']) (upload_delay (init_kernel (open_board [])))"
proof -
  let ?k = "init_kernel (open_board [])"
  let ?b = "(open_board [])\<lparr>received := ''x'' @ [CHR 0x0D, CHR 0x0A]\<rparr>"
  let ?k1 = "?k\<lparr>board := ?b, upload_delay := Finite 0.5,
               calls := [Write ''x'', Write [CHR 0x0D, CHR 0x0A], Sleep (Finite 0.5)]\<rparr>"
  let ?k2 = "?k\<lparr>board := ?b,
               calls := [Write ''x'', Write [CHR 0x0D, CHR 0x0A], Sleep (Finite 0.06)]\<rparr>"
  have f: "float_of_str plain_env (ustr ''0.5'') = Some (Finite 0.5)"
    "float_of_str plain_env (ustr ''abc'') = None"
    by (simp_all add: plain_env_def device_env_def one_float_def ustr_def)
  have c: "new_calls ?k ?k1 = [Write ''x'', Write [CHR 0x0D, CHR 0x0A], Sleep (Finite 0.5)]"
    "new_calls ?k ?k2 = [Write ''x'', Write [CHR 0x0D, CHR 0x0A], Sleep (Finite 0.06)]"
    by (simp_all add: new_calls_def init_kernel_def)
  have n: "\<forall>l\<in>set [ustr ''x'']. \<not> magic_line l" using not_magic_x by simp
  from is_magic_upload_delay[of plain_env ?k "[ustr ''x'']" "()" ?k1 "ustr ''%upload_delay''"]
    f n send_after_delay no_argument c(1)
  have 1: "is_magic plain_env (ustr ''%upload_delay 0.5'') ?k = (Inr True, ?k\<lparr>upload_delay := Finite 0.5\<rparr>)"
    "sleeps [Write ''x'', Write [CHR 0x0D, CHR 0x0A], Sleep (Finite 0.5)]
       = replicate (length [ustr ''x'']) (Finite 0.5)"
    "is_magic plain_env (ustr ''%upload_delay abc'') ?k = (Inr True, ?k)"
    by simp_all
  from is_magic_upload_delay[of plain_env ?k "[ustr ''x'']" "()" ?k2 "ustr ''%upload_delay''"]
    n send_after_no_argument no_argument c(2)
  have 2: "is_magic plain_env (ustr ''%upload_delay'') ?k = (Inr True, ?k)"
    "sleeps [Write ''x'', Write [CHR 0x0D, CHR 0x0A], Sleep (Finite 0.06)]
       = replicate (length [ustr ''x'']) (upload_delay ?k)"
    by simp_all
  from 1 2 show ?thesis by simp
qed

subsection \<open>What \<open>run_code\<close> transmits\<close>

lemma splitlines_two_lines: "splitlines two_lines = [ustr ''a'', ustr ''%softreset'', ustr ''b'']"
  by (simp add: two_lines_def splitlines_def ustr_def is_linebreak_def)

lemma send_two_lines:
  "run_code_send plain_env two_lines (init_kernel (board_with bursts))
     = (Inr (),
        (init_kernel (board_with bursts))
          \<lparr>board := (board_with bursts)
              \<lparr>is_open := True, opens := 1, resets := 1,
               received := ''a'' @ [CHR 0x0D, CHR 0x0A] @ ''b'' @ [CHR 0x0D, CHR 0x0A, CHR 0x0D, CHR 0x04]\<rparr>,
           calls := [Connect, Write ''a'', Write [CHR 0x0D, CHR 0x0A], Sleep (Finite 0.06), Softreset,
                     Write ''b'', Write [CHR 0x0D, CHR 0x0A], Sleep (Finite 0.06),
                     Write [CHR 0x0D, CHR 0x04]]\<rparr>)"
  by (simp add: run_code_send_def splitlines_two_lines connect_def is_magic_def softreset_def
      startswith_def ustr_def Let_def encode_cp_def write_bytes_def
      sleep_def invoke_def device_simps char_of_eq_iff)

text \<open>
  C5, as the code has it: the lines of a block are those of \<open>str.splitlines\<close>, which
  cuts at LF, CR, CR LF, VT, FF, FS, GS, RS, NEL, U+2028 and U+2029 and sends none of
  these.  When the transmission phase of \<open>run_code\<close> completes without an exception,
  every line that is not a magic line encodes as UTF-8, and what has been written to
  the board is, for each such line, empty or not, in the order of the block, the
  encoding of the line and then CR LF, followed by the evaluation trigger; a magic
  line is never written, and the reading phase writes nothing more.
\<close>

theorem run_code_transmits_lines:
  assumes "run_code_send E code k = (Inr u, k1)"
  shows "\<exists>bss. map encode_utf8 (filter (\<lambda>l. \<not> magic_line l) (splitlines code)) = map Inr bss
      \<and> written (new_calls k k1)
          = concat (map (\<lambda>bs. [bs, [CHR 0x0D, CHR 0x0A]]) bss) @ [[CHR 0x0D, CHR 0x04]]
      \<and> (\<forall>silent y. run_code E code silent k = Some y \<longrightarrow>
            written (new_calls k (snd y)) = written (new_calls k k1))"
proof -
  from run_code_send_calls[OF assms] obtain bss pre where
    c: "calls k1 = calls k @ Connect # pre @ [Write [CHR 0x0D, CHR 0x04]]"
    and b: "map encode_utf8 (filter (\<lambda>l. \<not> magic_line l) (splitlines code)) = map Inr bss"
    and w: "written pre = concat (map (\<lambda>bs. [bs, [CHR 0x0D, CHR 0x0A]]) bss)"
    by auto
  have 1: "written (new_calls k k1)
          = concat (map (\<lambda>bs. [bs, [CHR 0x0D, CHR 0x0A]]) bss) @ [[CHR 0x0D, CHR 0x04]]"
    using c w by (simp add: new_calls_def)
  have 2: "\<forall>silent y. run_code E code silent k = Some y \<longrightarrow>
            written (new_calls k (snd y)) = written (new_calls k k1)"
  proof (intro allI impI)
    fix silent y assume "run_code E code silent k = Some y"
    from run_code_calls[OF this assms] obtain rds where
      "calls (snd y) = calls k1 @ rds" "written rds = []"
      by blast
    with c show "written (new_calls k (snd y)) = written (new_calls k k1)"
      by (simp add: new_calls_def)
  qed
  from b 1 2 show ?thesis by blast
qed

theorem run_code_transmits_lines_witness:
  "written (new_calls (init_kernel (board_with []))
              (snd (run_code_send plain_env two_lines (init_kernel (board_with [])))))
     = [''a'', [CHR 0x0D, CHR 0x0A], ''b'', [CHR 0x0D, CHR 0x0A], [CHR 0x0D, CHR 0x04]]"
proof -
  from run_code_transmits_lines[OF send_two_lines, of "[]"] obtain bss where
    b: "map encode_utf8 (filter (\<lambda>l. \<not> magic_line l) (splitlines two_lines)) = map Inr bss"
    and w: "written (new_calls (init_kernel (board_with []))
              (snd (run_code_send plain_env two_lines (init_kernel (board_with [])))))
          = concat (map (\<lambda>bs. [bs, [CHR 0x0D, CHR 0x0A]]) bss) @ [[CHR 0x0D, CHR 0x04]]"
    by (auto simp only: send_two_lines snd_conv)
  have "char_of (97::nat) = CHR ''a''" "char_of (98::nat) = CHR ''b''"
    by (simp_all add: char_of_eq_iff)
  with b have "[Inr ''a'', Inr ''b'' :: exn + bytes] = map Inr bss"
    by (simp add: splitlines_two_lines magic_line_def startswith_def ustr_def encode_cp_def)
  then have "bss = [''a'', ''b'']" by auto
  with w show ?thesis by simp
qed

text \<open>
  C5 as stated fails: a block that is one line between newlines, holds no magic
  line and encodes as UTF-8, but has a form feed in it, is not sent verbatim.  It
  goes out as two lines, and the form feed is never sent.
\<close>

lemma calls_init: "calls (init_kernel b) = []"
  by (simp add: init_kernel_def)

lemma splitlines_ff: "splitlines ff_line = [ustr ''a'', ustr ''b'']"
  by (simp add: ff_line_def splitlines_def ustr_def is_linebreak_def)

lemma send_ff:
  "run_code_send plain_env ff_line (init_kernel (board_with []))
     = (Inr (),
        (init_kernel (board_with []))
          \<lparr>board := (board_with [])
              \<lparr>is_open := True, opens := 1,
               received := ''a'' @ [CHR 0x0D, CHR 0x0A] @ ''b'' @ [CHR 0x0D, CHR 0x0A, CHR 0x0D, CHR 0x04]\<rparr>,
           calls := [Connect, Write ''a'', Write [CHR 0x0D, CHR 0x0A], Sleep (Finite 0.06),
                     Write ''b'', Write [CHR 0x0D, CHR 0x0A], Sleep (Finite 0.06),
                     Write [CHR 0x0D, CHR 0x04]]\<rparr>)"
  by (simp add: run_code_send_def splitlines_ff connect_def is_magic_def softreset_def
      startswith_def ustr_def Let_def encode_cp_def write_bytes_def
      sleep_def invoke_def device_simps char_of_eq_iff)

lemma ff_one_line: "py_split 0x0A ff_line = [ff_line]"
  by (simp add: ff_line_def ustr_def)

lemma ff_encodes: "encode_utf8 ff_line = Inr (''a'' @ [CHR 0x0C] @ ''b'')"
  by (simp add: ff_line_def ustr_def encode_cp_def char_of_eq_iff)

lemma ff_plain: "\<not> magic_line ff_line"
  by (simp add: ff_line_def magic_line_def startswith_def ustr_def)

theorem run_code_form_feed_counterexample:
  "py_split 0x0A ff_line = [ff_line] \<and> \<not> magic_line ff_line
   \<and> encode_utf8 ff_line = Inr (''a'' @ [CHR 0x0C] @ ''b'')
   \<and> written (new_calls (init_kernel (board_with []))
       (snd (run_code_send plain_env ff_line (init_kernel (board_with [])))))
     = [''a'', [CHR 0x0D, CHR 0x0A], ''b'', [CHR 0x0D, CHR 0x0A], [CHR 0x0D, CHR 0x04]]
   \<and> written (new_calls (init_kernel (board_with []))
       (snd (run_code_send plain_env ff_line (init_kernel (board_with [])))))
     \<noteq> [''a'' @ [CHR 0x0C] @ ''b'', [CHR 0x0D, CHR 0x0A], [CHR 0x0D, CHR 0x04]]
   \<and> CHR 0x0C \<notin> set (received (board
       (snd (run_code_send plain_env ff_line (init_kernel (board_with []))))))"
  by (simp add: send_ff ff_one_line ff_encodes ff_plain new_calls_def calls_init)

text \<open>
  C8, as the code has it: the last call of the transmission phase is one write of the
  two bytes 0x0D 0x04 (a carriage return, then Ctrl-D); nothing is read before it,
  and after it \<open>run_code\<close> writes nothing and begins with \<open>read_until(b'OK')\<close>.
\<close>

theorem run_code_trigger:
  assumes "run_code_send E code k = (Inr u, k1)"
  shows "\<exists>pre. calls k1 = calls k @ pre @ [Write [CHR 0x0D, CHR 0x04]]
           \<and> (\<forall>ev\<in>set pre. \<not> is_read ev)
           \<and> (\<forall>silent y. run_code E code silent k = Some y \<longrightarrow>
                (\<exists>rds. calls (snd y) = calls k1 @ rds \<and> written rds = []
                   \<and> (rds = [] \<or> (\<exists>x rest. rds = Read_until ''OK'' x # rest))))"
proof -
  from run_code_send_calls[OF assms] obtain evs pre where
    c: "calls k1 = calls k @ evs" and n: "\<forall>ev\<in>set evs. \<not> is_read ev"
    and e: "evs = Connect # pre @ [Write [CHR 0x0D, CHR 0x04]]"
    by auto
  have 1: "calls k1 = calls k @ (Connect # pre) @ [Write [CHR 0x0D, CHR 0x04]]"
    using c e by simp
  have 2: "\<forall>ev\<in>set (Connect # pre). \<not> is_read ev" using n e by simp
  have 3: "\<forall>silent y. run_code E code silent k = Some y \<longrightarrow>
                (\<exists>rds. calls (snd y) = calls k1 @ rds \<and> written rds = []
                   \<and> (rds = [] \<or> (\<exists>x rest. rds = Read_until ''OK'' x # rest)))"
  proof (intro allI impI)
    fix silent y assume "run_code E code silent k = Some y"
    from run_code_calls[OF this assms]
    show "\<exists>rds. calls (snd y) = calls k1 @ rds \<and> written rds = []
                   \<and> (rds = [] \<or> (\<exists>x rest. rds = Read_until ''OK'' x # rest))"
      by blast
  qed
  from 1 2 3 show ?thesis by blast
qed

theorem run_code_trigger_witness:
  "\<exists>pre. calls (snd (run_code_send plain_env two_lines (init_kernel (board_with []))))
            = pre @ [Write [CHR 0x0D, CHR 0x04]]
         \<and> list_all (\<lambda>ev. \<not> is_read ev) pre"
proof -
  from run_code_trigger[OF send_two_lines, of "[]"] obtain pre where
    "calls (snd (run_code_send plain_env two_lines (init_kernel (board_with []))))
       = calls (init_kernel (board_with [])) @ pre @ [Write [CHR 0x0D, CHR 0x04]]"
    "\<forall>ev\<in>set pre. \<not> is_read ev"
    by (auto simp only: send_two_lines snd_conv)
  then show ?thesis by (auto simp add: init_kernel_def list_all_iff)
qed

text \<open>
  C8 as stated fails: the trigger is not the single byte 0x04; a carriage return
  goes out before it, in the same write.
\<close>

theorem run_code_trigger_single_byte_counterexample:
  "last (calls (snd (run_code_send plain_env two_lines (init_kernel (board_with [])))))
     = Write [CHR 0x0D, CHR 0x04]
   \<and> last (calls (snd (run_code_send plain_env two_lines (init_kernel (board_with [])))))
     \<noteq> Write [CHR 0x04]
   \<and> received (board (snd (run_code_send plain_env two_lines (init_kernel (board_with [])))))
     = ''a'' @ [CHR 0x0D, CHR 0x0A] @ ''b'' @ [CHR 0x0D, CHR 0x0A] @ [CHR 0x0D, CHR 0x04]"
  by (simp add: send_two_lines)

subsection \<open>The value returned by \<open>run_code\<close>\<close>

lemma lines_x:
  "\<forall>l\<in>set (splitlines (ustr ''x'')). \<not> magic_line l \<longrightarrow> (\<exists>bs. encode_utf8 l = Inr bs)"
  by (simp add: splitlines_def ustr_def is_linebreak_def encode_cp_def)

lemma delay_x:
  "\<forall>l\<in>set (splitlines (ustr ''x'')). \<forall>d. line_delay E l = Some d \<longrightarrow> ck d = None"
  by (simp add: splitlines_def ustr_def is_linebreak_def line_delay_def startswith_def)

lemma clock_init: "py_clock (upload_delay (init_kernel b)) = None"
  by (simp add: init_kernel_def py_clock_def)

lemma clock_tenth: "py_clock (Finite 0.1) = None"
  by (simp add: py_clock_def)

lemma decode_hello: "decode_utf8 ''hello'' = ustr ''hello''"
  by (simp add: decode_utf8_def ustr_def)

lemma decode_nil: "decode_utf8 [] = []"
  by (simp add: decode_utf8_def)

lemma run_hello:
  "\<exists>k'. run_code plain_env (ustr ''x'') silent (init_kernel (board_with hello_bursts))
           = Some (Inr (ustr ''hello'', []), k')
        \<and> (silent \<longrightarrow> iopub k' = [])"
proof -
  have a: "attached (board (init_kernel (board_with hello_bursts)))"
    by (simp add: init_kernel_def board_with_def)
  have c: "concat (pending (board (init_kernel (board_with hello_bursts))))
           = ''OK'' @ ''hello'' @ CHR 0x04 # [] @ [CHR 0x04, CHR ''>'']"
    by (simp add: init_kernel_def board_with_def hello_bursts_def)
  from dev_run_code[where ck = py_clock, OF a c _ _ _ lines_x clock_init delay_x[where ck = py_clock] clock_tenth,
      of one_float one_literal "\<lambda>_. False" silent]
  show ?thesis
    by (simp add: plain_env_def decode_hello decode_nil init_kernel_def)
qed

text \<open>
  C7: \<open>run_code\<close> with \<open>silent\<close> set and with \<open>silent\<close> clear either both never
  return, or return the same pair (or raise the same exception) and leave kernels
  that differ in the notebook output at most; and the pair returned is the split, at
  its first 0x04, of everything \<open>read_all\<close> returned during the run without the last
  two bytes, decoded.
\<close>

theorem run_code_silent_independent:
  "(run_code E code True k = None \<longleftrightarrow> run_code E code False k = None)
   \<and> (\<forall>y. run_code E code True k = Some y \<longrightarrow>
         (\<exists>y'. run_code E code False k = Some y' \<and> same_but_iopub y y'))
   \<and> (\<forall>out err k1. run_code E code silent k = Some (Inr (out, err), k1) \<longrightarrow>
         (\<exists>buf ob eb. concat (read_alls (new_calls k k1)) = buf @ [CHR 0x04, CHR ''>'']
            \<and> py_split1 (CHR 0x04) buf = [ob, eb]
            \<and> out = decode_utf8 ob \<and> err = decode_utf8 eb))"
proof (intro conjI allI impI)
  show "run_code E code True k = None \<longleftrightarrow> run_code E code False k = None"
  proof
    assume n: "run_code E code True k = None"
    show "run_code E code False k = None"
    proof (cases "run_code E code False k")
      case None
      then show ?thesis .
    next
      case (Some y)
      from run_code_hush[OF Some, of True] n show ?thesis by simp
    qed
  next
    assume n: "run_code E code False k = None"
    show "run_code E code True k = None"
    proof (cases "run_code E code True k")
      case None
      then show ?thesis .
    next
      case (Some y)
      from run_code_hush[OF Some, of False] n show ?thesis by simp
    qed
  qed
next
  fix y assume "run_code E code True k = Some y"
  then show "\<exists>y'. run_code E code False k = Some y' \<and> same_but_iopub y y'"
    by (rule run_code_hush)
next
  fix out err k1 assume r: "run_code E code silent k = Some (Inr (out, err), k1)"
  obtain r0 k0 where s: "run_code_send E code k = (r0, k0)" by (cases "run_code_send E code k")
  from r s have r0: "r0 = Inr ()" by (cases r0) (auto simp add: run_code_def)
  from run_code_send_calls[OF s] obtain evs where
    e: "calls k0 = calls k @ evs" "\<forall>ev\<in>set evs. \<not> is_read ev"
    by blast
  from run_code_calls[OF r s[unfolded r0]] obtain rds buf ob eb where
    d: "calls k1 = calls k0 @ rds"
    "concat (read_alls rds) = buf @ [CHR 0x04, CHR ''>'']"
    "py_split1 (CHR 0x04) buf = [ob, eb]" "out = decode_utf8 ob" "err = decode_utf8 eb"
    by auto
  have "read_alls (new_calls k k1) = read_alls rds"
    using e d(1) no_reads[OF e(2)] by (simp add: new_calls_def)
  with d show "\<exists>buf ob eb. concat (read_alls (new_calls k k1)) = buf @ [CHR 0x04, CHR ''>'']
            \<and> py_split1 (CHR 0x04) buf = [ob, eb]
            \<and> out = decode_utf8 ob \<and> err = decode_utf8 eb"
    by auto
qed

theorem run_code_silent_independent_witness:
  "\<exists>k1 k2. run_code plain_env (ustr ''x'') True (init_kernel (board_with hello_bursts))
              = Some (Inr (ustr ''hello'', []), k1)
          \<and> run_code plain_env (ustr ''x'') False (init_kernel (board_with hello_bursts))
              = Some (Inr (ustr ''hello'', []), k2)
          \<and> hush k1 = hush k2 \<and> iopub k1 = []"
proof -
  let ?k = "init_kernel (board_with hello_bursts)"
  from run_hello[of True] obtain k1 where
    a: "run_code plain_env (ustr ''x'') True ?k = Some (Inr (ustr ''hello'', []), k1)"
    "iopub k1 = []"
    by auto
  from run_code_silent_independent[of plain_env "ustr ''x''" ?k True] a(1)
  obtain y' where "run_code plain_env (ustr ''x'') False ?k = Some y'"
    "same_but_iopub (Inr (ustr ''hello'', []), k1) y'"
    by blast
  then have "run_code plain_env (ustr ''x'') False ?k = Some (Inr (ustr ''hello'', []), snd y')"
    "hush k1 = hush (snd y')"
    by (cases y'; simp add: same_but_iopub_def)+
  with a show ?thesis by blast
qed

text \<open>
  A sleep that raises ends \<open>run_code\<close>: after \<open>%upload_delay -1\<close> the sleep that
  follows the next line raises \<open>ValueError\<close>, whatever the board would answer.
\<close>

lemma splitlines_delay: "splitlines delay_lines = [ustr ''%upload_delay -1'', ustr ''x'']"
  by (simp add: delay_lines_def splitlines_def ustr_def is_linebreak_def)

lemma run_negative_delay:
  "\<exists>k'. run_code (device_env py_clock minus_float one_literal (\<lambda>_. False)) delay_lines silent
           (init_kernel (board_with hello_bursts))
         = Some (Inl ValueError, k')"
  by (simp add: run_code_def run_code_send_def splitlines_delay connect_def is_magic_def
      softreset_def startswith_def ustr_def Let_def encode_cp_def write_bytes_def minus_float_def
      sleep_def invoke_def device_simps char_of_eq_iff)

lemma decode_traceback: "decode_utf8 ''Traceback...'' = ustr ''Traceback...''"
  by (simp add: decode_utf8_def ustr_def)

text \<open>
  C3, as the code has it: let the board be attached and answer \<open>OK\<close>, \<open>out\<close>,
  0x04, \<open>err\<close>, 0x04, \<open>>\<close>, where neither \<open>out\<close> nor \<open>err\<close> holds a 0x04 and
  \<open>err\<close> does not begin with \<open>>\<close>; let every line that is sent encode as UTF-8;
  and let no sleep raise, that is, the clock accepts 0.1, the delay the kernel
  starts with and every delay that a line of the block sets.  Then however the bytes
  are split over the reads, \<open>run_code\<close> returns the pair of \<open>out\<close> and \<open>err\<close>,
  decoded.
\<close>

theorem run_code_returns_out_err:
  assumes "attached (board k)"
    and "concat (pending (board k)) = ''OK'' @ out @ CHR 0x04 # err @ [CHR 0x04, CHR ''>'']"
    and "CHR 0x04 \<notin> set out" and "CHR 0x04 \<notin> set err"
    and "err = [] \<or> hd err \<noteq> CHR ''>''"
    and "\<forall>l\<in>set (splitlines code). \<not> magic_line l \<longrightarrow> (\<exists>bs. encode_utf8 l = Inr bs)"
    and "ck (upload_delay k) = None"
    and "\<forall>l\<in>set (splitlines code). \<forall>d.
           line_delay (device_env ck fl lit al) l = Some d \<longrightarrow> ck d = None"
    and "ck (Finite 0.1) = None"
  shows "\<exists>k'. run_code (device_env ck fl lit al) code silent k
               = Some (Inr (decode_utf8 out, decode_utf8 err), k')"
  using dev_run_code[where ck = ck, OF assms, of silent] by blast

lemma splitlines_half: "splitlines half_lines = [ustr ''%upload_delay 0.5'', ustr ''x'']"
  by (simp add: half_lines_def splitlines_def ustr_def is_linebreak_def)

lemma lines_half:
  "\<forall>l\<in>set (splitlines half_lines). \<not> magic_line l \<longrightarrow> (\<exists>bs. encode_utf8 l = Inr bs)"
  by (simp add: splitlines_half magic_line_def startswith_def ustr_def encode_cp_def)

lemma delay_half:
  "\<forall>l\<in>set (splitlines half_lines). \<forall>d.
     line_delay (device_env py_clock one_float one_literal (\<lambda>_. False)) l = Some d
       \<longrightarrow> py_clock d = None"
  by (simp add: splitlines_half line_delay_def startswith_def ustr_def device_env_def
      one_float_def py_clock_def)

lemma delay_half_set:
  "line_delay plain_env (ustr ''%upload_delay 0.5'') = Some (Finite 0.5)"
  by (simp add: line_delay_def startswith_def ustr_def plain_env_def device_env_def one_float_def)

theorem run_code_returns_out_err_witness:
  "(\<exists>k'. run_code plain_env (ustr ''x'') True (init_kernel (board_with hello_bursts))
           = Some (Inr (ustr ''hello'', []), k'))
   \<and> (\<exists>k'. run_code plain_env (ustr ''x'') True (init_kernel (board_with traceback_bursts))
           = Some (Inr ([], ustr ''Traceback...''), k'))
   \<and> (\<exists>k'. run_code plain_env half_lines False (init_kernel (board_with hello_bursts))
           = Some (Inr (ustr ''hello'', []), k'))"
proof (intro conjI)
  have a: "attached (board (init_kernel (board_with hello_bursts)))"
    by (simp add: init_kernel_def board_with_def)
  have c: "concat (pending (board (init_kernel (board_with hello_bursts))))
           = ''OK'' @ ''hello'' @ CHR 0x04 # [] @ [CHR 0x04, CHR ''>'']"
    by (simp add: init_kernel_def board_with_def hello_bursts_def)
  from run_code_returns_out_err[where ck = py_clock, OF a c _ _ _ lines_x clock_init delay_x[where ck = py_clock] clock_tenth,
      of one_float one_literal "\<lambda>_. False" True]
  show "\<exists>k'. run_code plain_env (ustr ''x'') True (init_kernel (board_with hello_bursts))
           = Some (Inr (ustr ''hello'', []), k')"
    by (simp add: plain_env_def decode_hello decode_nil)
  from run_code_returns_out_err[where ck = py_clock, OF a c _ _ _ lines_half clock_init delay_half clock_tenth,
      of False]
  show "\<exists>k'. run_code plain_env half_lines False (init_kernel (board_with hello_bursts))
           = Some (Inr (ustr ''hello'', []), k')"
    by (simp add: plain_env_def decode_hello decode_nil)
next
  have a: "attached (board (init_kernel (board_with traceback_bursts)))"
    by (simp add: init_kernel_def board_with_def)
  have c: "concat (pending (board (init_kernel (board_with traceback_bursts))))
           = ''OK'' @ [] @ CHR 0x04 # ''Traceback...'' @ [CHR 0x04, CHR ''>'']"
    by (simp add: init_kernel_def board_with_def traceback_bursts_def)
  from run_code_returns_out_err[where ck = py_clock, OF a c _ _ _ lines_x clock_init delay_x[where ck = py_clock] clock_tenth,
      of one_float one_literal "\<lambda>_. False" True]
  show "\<exists>k'. run_code plain_env (ustr ''x'') True (init_kernel (board_with traceback_bursts))
           = Some (Inr ([], ustr ''Traceback...''), k')"
    by (simp add: plain_env_def decode_traceback decode_nil)
qed

text \<open>
  C3 as stated fails: a response of the stated form whose error text begins with
  \<open>>\<close> ends the inner loop early when a read ends after that \<open>>\<close>; the buffer then
  holds no 0x04 after the last two bytes are cut, and the unpacking of line 102
  raises.
\<close>

lemma dev_read_until_exact:
  assumes "usable (board k)"
  shows "\<exists>k1. read_until (device_env ck fl lit al) d k
             = (Inr (take (until_end d (concat (pending (board k)))) (concat (pending (board k)))), k1)
      \<and> usable (board k1)
      \<and> pending (board k1) = drop_bytes (until_end d (concat (pending (board k)))) (pending (board k))
      \<and> iopub k1 = iopub k"
  using assms
  by (simp add: read_until_def invoke_def device_env_def dev_read_until_def usable_def Let_def)

lemma run_early:
  "\<exists>k'. run_code plain_env (ustr ''x'') True (init_kernel (board_with early_bursts))
           = Some (Inl ValueError, k')"
proof -
  let ?k = "init_kernel (board_with early_bursts)"
  have a: "attached (board ?k)" by (simp add: init_kernel_def board_with_def)
  from dev_send_ok[where ck = py_clock, OF a lines_x clock_init delay_x[where ck = py_clock], of one_float one_literal "\<lambda>_. False"] obtain k1 where
    s: "run_code_send plain_env (ustr ''x'') ?k = (Inr (), k1)" "usable (board k1)"
    "pending (board k1) = early_bursts"
    by (auto simp add: plain_env_def init_kernel_def board_with_def)
  from dev_read_until_exact[OF s(2), of py_clock one_float one_literal "\<lambda>_. False" "''OK''"] s(3)
  obtain k2 where
    r: "read_until plain_env ''OK'' k1 = (Inr ''OK'', k2)" "usable (board k2)"
    "pending (board k2) = [''hi'' @ [CHR 0x04, CHR ''>''], ''oops'' @ [CHR 0x04, CHR ''>'']]"
    by (auto simp add: plain_env_def early_bursts_def startswith_def)
  from dev_read_all_cons[OF r(2,3), of py_clock one_float one_literal "\<lambda>_. False"] obtain k3 where
    g: "read_all plain_env k2 = (Inr (''hi'' @ [CHR 0x04, CHR ''>'']), k3)"
    by (auto simp add: plain_env_def)
  have e: "run_code_rest plain_env (''hi'' @ [CHR 0x04, CHR ''>'']) k3
           = Some (Inr (''hi'' @ [CHR 0x04, CHR ''>'']), k3)"
    by (subst run_code_rest.simps) (simp add: endswith_def)
  have l: "run_code_loop plain_env True [] k2 = Some (Inl ValueError, k3)"
    using g e by (subst run_code_loop.simps) (simp add: Let_def py_split1_def)
  from s r l show ?thesis by (simp add: run_code_def)
qed

theorem run_code_early_terminator_counterexample:
  "concat early_bursts = ''OK'' @ ''hi'' @ [CHR 0x04] @ ''>oops'' @ [CHR 0x04, CHR ''>'']
   \<and> (\<exists>k'. run_code plain_env (ustr ''x'') True (init_kernel (board_with early_bursts))
            = Some (Inl ValueError, k'))"
  using run_early by (simp add: early_bursts_def)

subsection \<open>The span of a completion\<close>

lemma search_total: "\<exists>p. search_dollar w prefix_pattern s = Some p"
proof -
  let ?P = "\<lambda>(i, e). i \<le> e \<and> fullmatch w prefix_pattern (take (e - i) (drop i s))"
  let ?xs = "concat (map (\<lambda>i. map (\<lambda>e. (i, e)) (dollar_ends s)) [0..<Suc (length s)])"
  have "length s \<in> set (dollar_ends s)" by (simp add: dollar_ends_def)
  then have "(length s, length s) \<in> set ?xs" by auto
  moreover have "?P (length s, length s)" by (simp add: fullmatch_def prefix_pattern_def)
  ultimately have "List.find ?P ?xs \<noteq> None"
    unfolding find_None_iff by blast
  then obtain x where "List.find ?P ?xs = Some x" by blast
  then show ?thesis unfolding search_dollar_def by simp
qed

lemma py_split_no_sep: "sep \<notin> set s \<Longrightarrow> py_split sep s = [s]"
  by (induction s) auto

lemma select_names_strs:
  "select_names prefix (map PStr names) = Inr (filter (\<lambda>n. startswith n prefix) names)"
  by (induction names) auto

lemma complete_names_span:
  assumes "complete_names E expr prefix pos k = Some (Inr rep, k')"
  shows "cursor_end rep = pos \<and> cursor_start rep = pos - int (length prefix)"
  using assms
  by (auto simp add: complete_names_def split: option.splits prod.splits sum.splits)

lemma do_complete_span_general:
  assumes "do_complete E code pos k = Some (Inr rep, k')"
  shows "\<exists>p. search_dollar (is_word E) prefix_pattern (slice_to pos code) = Some p
           \<and> cursor_end rep = pos
           \<and> cursor_start rep = pos - int (length (last (py_split 0x2E p)))"
proof -
  from search_total obtain p where
    p: "search_dollar (is_word E) prefix_pattern (slice_to pos code) = Some p" by blast
  show ?thesis
  proof (cases "0x2E \<in> set p")
    case False
    with assms p have "complete_names E (ustr ''dir()'') p pos k = Some (Inr rep, k')"
      by (simp add: do_complete_def)
    from complete_names_span[OF this] p False show ?thesis
      by (simp add: py_split_no_sep)
  next
    case True
    with assms p obtain obj pre where
      s: "py_split 0x2E p = [obj, pre]"
      and c: "complete_names E (ustr ''dir('' @ obj @ ustr '')'') pre pos k = Some (Inr rep, k')"
      by (auto simp add: do_complete_def split: list.splits)
    from complete_names_span[OF c] p s show ?thesis by simp
  qed
qed

lemma search_obj_me:
  "search_dollar (is_word E) prefix_pattern (slice_to 6 (ustr ''obj.me'')) = Some (ustr ''obj.me'')"
  by (simp add: search_dollar_def slice_to_def ustr_def dollar_ends_def fullmatch_def
      prefix_pattern_def is_word_def upt_rec)

lemma do_complete_obj_me:
  assumes "kernel_eval E (ustr ''dir(obj)'') k = Some (Inr (PList (map PStr names)), k1)"
  shows "do_complete E (ustr ''obj.me'') 6 k
           = Some (Inr \<lparr>matches = filter (\<lambda>n. startswith n (ustr ''me'')) names,
                        cursor_start = 4, cursor_end = 6, metadata = [],
                        complete_status = ''ok''\<rparr>, k1)"
proof -
  have s: "py_split 0x2E (ustr ''obj.me'') = [ustr ''obj'', ustr ''me'']"
    by (simp add: ustr_def)
  have d: "ustr ''dir('' @ ustr ''obj'' @ ustr '')'' = ustr ''dir(obj)''"
    by (simp add: ustr_def)
  have m: "(0x2E::nat) \<in> set (ustr ''obj.me'')" by (simp add: ustr_def)
  have l: "int (length (ustr ''me'')) = 2" by (simp add: ustr_def)
  have "complete_names E (ustr ''dir(obj)'') (ustr ''me'') 6 k
           = Some (Inr \<lparr>matches = filter (\<lambda>n. startswith n (ustr ''me'')) names,
                        cursor_start = 4, cursor_end = 6, metadata = [],
                        complete_status = ''ok''\<rparr>, k1)"
    using assms l by (simp add: complete_names_def py_iter_def select_names_strs)
  then show ?thesis
    using m by (simp add: do_complete_def search_obj_me s d)
qed

text \<open>
  C1, as the code has it: for \<open>obj.me\<close> with the cursor at 6, when \<open>dir(obj)\<close>
  evaluates to a list of names, \<open>do_complete\<close> returns the names that start with
  \<open>me\<close> and the span from 4 to 6.  In general the span ends at the cursor and starts
  \<open>len(p)\<close> before it, where \<open>p\<close> is the part after the last dot of the text matched
  before the cursor (the whole of it when it holds no dot).
\<close>

theorem do_complete_span:
  "(kernel_eval E (ustr ''dir(obj)'') k = Some (Inr (PList (map PStr names)), k1) \<longrightarrow>
      do_complete E (ustr ''obj.me'') 6 k
        = Some (Inr \<lparr>matches = filter (\<lambda>n. startswith n (ustr ''me'')) names,
                     cursor_start = 4, cursor_end = 6, metadata = [],
                     complete_status = ''ok''\<rparr>, k1))
   \<and> (do_complete E code pos k = Some (Inr rep, k') \<longrightarrow>
      (\<exists>p. search_dollar (is_word E) prefix_pattern (slice_to pos code) = Some p
         \<and> cursor_end rep = pos
         \<and> cursor_start rep = pos - int (length (last (py_split 0x2E p)))))"
  using do_complete_obj_me do_complete_span_general by blast


lemma lines_print_dir:
  "\<forall>l\<in>set (splitlines (ustr ''print('' @ ustr ''dir(obj)'' @ ustr '')'')).
     \<not> magic_line l \<longrightarrow> (\<exists>bs. encode_utf8 l = Inr bs)"
  by (simp add: splitlines_def ustr_def is_linebreak_def encode_cp_def)

lemma delay_print_dir:
  "\<forall>l\<in>set (splitlines (ustr ''print('' @ ustr ''dir(obj)'' @ ustr '')'')).
     \<forall>d. line_delay E l = Some d \<longrightarrow> ck d = None"
  by (simp add: splitlines_def ustr_def is_linebreak_def line_delay_def startswith_def)

lemma decode_names:
  "decode_utf8 (''['' @ [CHR 0x27] @ ''__class__'' @ [CHR 0x27] @ '', '' @ [CHR 0x27] @ ''method''
       @ [CHR 0x27] @ '']'' @ [CHR 0x0D, CHR 0x0A]) = names_text"
  by (simp add: decode_utf8_def names_text_def ustr_def)

lemma eval_names:
  "\<exists>k1. kernel_eval plain_env (ustr ''dir(obj)'') (init_kernel (board_with names_bursts))
          = Some (Inr (PList (map PStr [ustr ''__class__'', ustr ''method''])), k1)"
proof -
  let ?k = "init_kernel (board_with names_bursts)"
  let ?out = "''['' @ [CHR 0x27] @ ''__class__'' @ [CHR 0x27] @ '', '' @ [CHR 0x27] @ ''method''
       @ [CHR 0x27] @ '']'' @ [CHR 0x0D, CHR 0x0A]"
  have a: "attached (board ?k)" by (simp add: init_kernel_def board_with_def)
  have c: "concat (pending (board ?k)) = ''OK'' @ ?out @ CHR 0x04 # [] @ [CHR 0x04, CHR ''>'']"
    by (simp add: init_kernel_def board_with_def names_bursts_def)
  have n: "CHR 0x04 \<notin> set ?out" by simp
  from dev_run_code[where ck = py_clock, OF a c n _ _ lines_print_dir clock_init delay_print_dir[where ck = py_clock] clock_tenth,
      of one_float one_literal "\<lambda>_. False" True]
  obtain k1 where
    "run_code plain_env (ustr ''print('' @ ustr ''dir(obj)'' @ ustr '')'') True ?k
       = Some (Inr (names_text, []), k1)"
    by (auto simp only: plain_env_def decode_names decode_nil simp_thms list.set empty_iff not_False_eq_True)
  moreover have "names_text \<noteq> []" by (simp add: names_text_def)
  ultimately have "kernel_eval plain_env (ustr ''dir(obj)'') ?k
          = Some (Inr (PList [PStr (ustr ''__class__''), PStr (ustr ''method'')]), k1)"
    by (simp add: kernel_eval_def literal_eval_def plain_env_def device_env_def one_literal_def)
  then show ?thesis by simp
qed

lemma select_method:
  "filter (\<lambda>n. startswith n (ustr ''me'')) [ustr ''__class__'', ustr ''method''] = [ustr ''method'']"
  by (simp add: startswith_def ustr_def)

theorem do_complete_span_witness:
  "\<exists>k1. do_complete plain_env (ustr ''obj.me'') 6 (init_kernel (board_with names_bursts))
          = Some (Inr \<lparr>matches = [ustr ''method''], cursor_start = 4, cursor_end = 6,
                       metadata = [], complete_status = ''ok''\<rparr>, k1)"
proof -
  from eval_names obtain k1 where
    e: "kernel_eval plain_env (ustr ''dir(obj)'') (init_kernel (board_with names_bursts))
          = Some (Inr (PList (map PStr [ustr ''__class__'', ustr ''method''])), k1)" ..
  from do_complete_span[of plain_env "init_kernel (board_with names_bursts)"
      "[ustr ''__class__'', ustr ''method'']" k1] e
  have "do_complete plain_env (ustr ''obj.me'') 6 (init_kernel (board_with names_bursts))
        = Some (Inr \<lparr>matches = filter (\<lambda>n. startswith n (ustr ''me''))
                                  [ustr ''__class__'', ustr ''method''],
                     cursor_start = 4, cursor_end = 6, metadata = [],
                     complete_status = ''ok''\<rparr>, k1)"
    by blast
  then show ?thesis by (simp only: select_method) blast
qed

text \<open>
  C1 as stated fails: with \<open>method\<close> among the names of \<open>dir(obj)\<close>, the match list is
  \<open>["method"]\<close> and the span ends at 6, but it starts at 4, not at 3.
\<close>

theorem do_complete_start_counterexample:
  "\<exists>rep k1. do_complete plain_env (ustr ''obj.me'') 6 (init_kernel (board_with names_bursts))
              = Some (Inr rep, k1)
          \<and> matches rep = [ustr ''method''] \<and> cursor_end rep = 6
          \<and> cursor_start rep = 4 \<and> cursor_start rep \<noteq> 3"
proof -
  from eval_names obtain k1 where
    e: "kernel_eval plain_env (ustr ''dir(obj)'') (init_kernel (board_with names_bursts))
          = Some (Inr (PList (map PStr [ustr ''__class__'', ustr ''method''])), k1)" ..
  from do_complete_obj_me[OF e]
  have "do_complete plain_env (ustr ''obj.me'') 6 (init_kernel (board_with names_bursts))
        = Some (Inr \<lparr>matches = [ustr ''method''], cursor_start = 4, cursor_end = 6,
                     metadata = [], complete_status = ''ok''\<rparr>, k1)"
    by (simp only: select_method)
  then show ?thesis by simp
qed

end
